theory Spec2Isabelle
  imports Main
begin

section \<open>Python values, exceptions and list indexing\<close>

text \<open>
  The interpreter of the 2019 notebooks (Day 2, and its extension with parameter modes
  and jumps) works on a Python list of ints.  Every exception the code can raise is a
  value of \<open>exc\<close>; \<open>Halt\<close> is the notebook's own exception class, the others are
  Python's.
\<close>

datatype exc = Halt | IndexError | KeyError | ValueError | TypeError | EOFError

type_synonym Memory = "int list"

text \<open>
  \<open>operator.getitem(memory, i)\<close> and \<open>memory[i]\<close>: an index from \<open>-len\<close> up to
  \<open>-1\<close> counts from the end of the list, anything outside \<open>-len .. len - 1\<close> raises
  IndexError.
\<close>

definition getitem :: "Memory \<Rightarrow> int \<Rightarrow> exc + int" where
  "getitem mem i =
     (let n = int (length mem); j = (if i < 0 then i + n else i)
      in if 0 \<le> j \<and> j < n then Inr (mem ! nat j) else Inl IndexError)"

text \<open>\<open>memory[i] = v\<close>, with the same index rule.\<close>

definition setitem :: "Memory \<Rightarrow> int \<Rightarrow> int \<Rightarrow> exc + Memory" where
  "setitem mem i v =
     (let n = int (length mem); j = (if i < 0 then i + n else i)
      in if 0 \<le> j \<and> j < n then Inr (mem[nat j := v]) else Inl IndexError)"

text \<open>
  The results the instruction bodies of the notebooks return: ints (add, mul, the
  constant input lambdas), bools (the comparisons, \<open>bool\<close>, \<open>operator.not_\<close>),
  \<open>None\<close> (\<open>print\<close>, \<open>outputs.append\<close>) and str (\<open>input\<close>).
\<close>

datatype pyval = PyInt int | PyBool bool | PyNone | PyStr string

text \<open>Truth value of a result, as \<open>jump_to if result else offset\<close> tests it.\<close>

fun py_truth :: "pyval \<Rightarrow> bool" where
  "py_truth (PyInt n) = (n \<noteq> 0)"
| "py_truth (PyBool b) = b"
| "py_truth PyNone = False"
| "py_truth (PyStr s) = (s \<noteq> [])"

text \<open>
  \<open>int(result)\<close>.  For a str, the decimal literals of ASCII text are covered: optional
  surrounding whitespace, an optional sign, digits with single underscores between them.
\<close>

definition py_isspace :: "char \<Rightarrow> bool" where
  "py_isspace c = (let n = (of_char c :: nat) in (9 \<le> n \<and> n \<le> 13) \<or> n = 32)"

definition py_isdigit :: "char \<Rightarrow> bool" where
  "py_isdigit c = (let n = (of_char c :: nat) in 48 \<le> n \<and> n \<le> 57)"

definition digit_value :: "char \<Rightarrow> int" where
  "digit_value c = int (of_char c) - 48"

fun parse_digits :: "int \<Rightarrow> string \<Rightarrow> int option" where
  "parse_digits acc [] = Some acc"
| "parse_digits acc [c] = (if py_isdigit c then Some (acc * 10 + digit_value c) else None)"
| "parse_digits acc (c # d # cs) =
     (if py_isdigit c then parse_digits (acc * 10 + digit_value c) (d # cs)
      else if c = CHR ''_'' \<and> py_isdigit d then parse_digits acc (d # cs)
      else None)"

definition strip :: "string \<Rightarrow> string" where
  "strip s = rev (dropWhile py_isspace (rev (dropWhile py_isspace s)))"

definition int_of_str :: "string \<Rightarrow> int option" where
  "int_of_str s =
     (let t = strip s;
          neg = (t \<noteq> [] \<and> hd t = CHR ''-'');
          body = (if t \<noteq> [] \<and> (hd t = CHR ''-'' \<or> hd t = CHR ''+'') then tl t else t)
      in case body of
           [] \<Rightarrow> None
         | c # cs \<Rightarrow>
             if py_isdigit c
             then map_option (\<lambda>n. if neg then - n else n) (parse_digits 0 body)
             else None)"

fun py_int :: "pyval \<Rightarrow> exc + int" where
  "py_int (PyInt n) = Inr n"
| "py_int (PyBool b) = Inr (if b then 1 else 0)"
| "py_int PyNone = Inl TypeError"
| "py_int (PyStr s) = (case int_of_str s of None \<Rightarrow> Inl ValueError | Some n \<Rightarrow> Inr n)"

text \<open>\<open>str(n)\<close> for an int, as \<open>print\<close> writes it.\<close>

fun str_of_nat :: "nat \<Rightarrow> string" where
  "str_of_nat n =
     (if n < 10 then [char_of (48 + n)] else str_of_nat (n div 10) @ [char_of (48 + n mod 10)])"

definition str_of_int :: "int \<Rightarrow> string" where
  "str_of_int i = (if i < 0 then CHR ''-'' # str_of_nat (nat (- i)) else str_of_nat (nat i))"


section \<open>The outside world of the instruction bodies\<close>

text \<open>
  The instruction bodies with an effect read the console (\<open>input\<close>), write it
  (\<open>print\<close>) or append to the list \<open>outputs\<close> of the cell that builds the table.
  \<open>stdin\<close> holds the lines \<open>input\<close> will return, without their newlines.
\<close>

record world =
  stdin :: "string list"
  stdout :: string
  outputs :: "int list"

text \<open>
  An instruction body \<open>f\<close>: called with the resolved arguments, it returns a result or
  raises, and leaves a world behind.
\<close>

type_synonym pyfun = "int list \<Rightarrow> world \<Rightarrow> (exc + pyval) \<times> world"

fun operator_add :: pyfun where
  "operator_add [a, b] w = (Inr (PyInt (a + b)), w)"
| "operator_add _ w = (Inl TypeError, w)"

fun operator_mul :: pyfun where
  "operator_mul [a, b] w = (Inr (PyInt (a * b)), w)"
| "operator_mul _ w = (Inl TypeError, w)"

fun operator_lt :: pyfun where
  "operator_lt [a, b] w = (Inr (PyBool (a < b)), w)"
| "operator_lt _ w = (Inl TypeError, w)"

fun operator_eq :: pyfun where
  "operator_eq [a, b] w = (Inr (PyBool (a = b)), w)"
| "operator_eq _ w = (Inl TypeError, w)"

fun operator_not :: pyfun where
  "operator_not [a] w = (Inr (PyBool (a = 0)), w)"
| "operator_not _ w = (Inl TypeError, w)"

text \<open>The builtin \<open>bool\<close>: \<open>bool()\<close> is False.\<close>

fun py_bool :: pyfun where
  "py_bool [] w = (Inr (PyBool False), w)"
| "py_bool [a] w = (Inr (PyBool (a \<noteq> 0)), w)"
| "py_bool _ w = (Inl TypeError, w)"

text \<open>\<open>Halt.halt\<close>: raises the class.\<close>

fun halt :: pyfun where
  "halt [] w = (Inl Halt, w)"
| "halt _ w = (Inl TypeError, w)"

text \<open>\<open>partial(input, "i> ")\<close>: writes the prompt, returns the next line as a str.\<close>

fun py_input :: pyfun where
  "py_input [] w =
     (case stdin w of
        [] \<Rightarrow> (Inl EOFError, w\<lparr>stdout := stdout w @ ''i> ''\<rparr>)
      | l # ls \<Rightarrow> (Inr (PyStr l), w\<lparr>stdin := ls, stdout := stdout w @ ''i> ''\<rparr>))"
| "py_input _ w = (Inl TypeError, w)"

text \<open>\<open>print\<close>: the arguments separated by spaces, then a newline.\<close>

fun join_spaces :: "string list \<Rightarrow> string" where
  "join_spaces [] = []"
| "join_spaces [s] = s"
| "join_spaces (s # t # ts) = s @ '' '' @ join_spaces (t # ts)"

definition py_print :: pyfun where
  "py_print args w =
     (Inr PyNone, w\<lparr>stdout := stdout w @ join_spaces (map str_of_int args) @ [CHR 0x0A]\<rparr>)"

text \<open>\<open>lambda: v\<close>, the automated input of the later cells.\<close>

fun const_input :: "int \<Rightarrow> pyfun" where
  "const_input v [] w = (Inr (PyInt v), w)"
| "const_input v _ w = (Inl TypeError, w)"

text \<open>\<open>outputs.append\<close>.\<close>

fun outputs_append :: pyfun where
  "outputs_append [a] w = (Inr PyNone, w\<lparr>outputs := outputs w @ [a]\<rparr>)"
| "outputs_append _ w = (Inl TypeError, w)"


section \<open>Day 5: parameter modes, instructions, the CPU\<close>

datatype ParameterMode = position | immediate

text \<open>\<open>_getters\<close>: position is \<open>operator.getitem\<close>, immediate is \<open>lambda _, a: a\<close>.\<close>

fun get :: "ParameterMode \<Rightarrow> Memory \<Rightarrow> int \<Rightarrow> exc + int" where
  "get position mem a = getitem mem a"
| "get immediate mem a = Inr a"

text \<open>\<open>ParameterMode(value)\<close>: the enum member with that value, or ValueError.\<close>

definition ParameterMode_of :: "int \<Rightarrow> exc + ParameterMode" where
  "ParameterMode_of v = (if v = 0 then Inr position else if v = 1 then Inr immediate else Inl ValueError)"

text \<open>
  The dataclass \<open>Instruction\<close> and its subclass \<open>JumpInstruction\<close>, which overrides
  \<open>__call__\<close> only.  \<open>arg_count\<close> is never negative in the notebook's tables.  The
  field \<open>output\<close> is written \<open>output'\<close>: the plain word is reserved in Isabelle.
\<close>

datatype Instruction =
    Instruction (f: pyfun) (arg_count: nat) (output': bool)
  | JumpInstruction (f: pyfun) (arg_count: nat) (output': bool)

text \<open>\<open>Instruction.__call__(pos, *args)\<close>: the next position and the result of \<open>f\<close>.\<close>

definition Instruction_call ::
  "Instruction \<Rightarrow> int \<Rightarrow> int list \<Rightarrow> world \<Rightarrow> (exc + int \<times> pyval) \<times> world" where
  "Instruction_call instr pos args w =
     (let offset = int (arg_count instr) + (if output' instr then 1 else 0)
      in case f instr args w of
           (Inl e, w') \<Rightarrow> (Inl e, w')
         | (Inr result, w') \<Rightarrow> (Inr (pos + 1 + offset, result), w'))"

text \<open>
  \<open>JumpInstruction.__call__\<close>: \<open>*jmpargs, jump_to = args\<close> raises ValueError on no
  arguments; the last argument is the target, taken when the result is true.
\<close>

definition JumpInstruction_call ::
  "Instruction \<Rightarrow> int \<Rightarrow> int list \<Rightarrow> world \<Rightarrow> (exc + int \<times> pyval) \<times> world" where
  "JumpInstruction_call instr pos args w =
     (if args = [] then (Inl ValueError, w)
      else
        let jmpargs = butlast args; jump_to = last args
        in case Instruction_call instr pos jmpargs w of
             (Inl e, w') \<Rightarrow> (Inl e, w')
           | (Inr (offset, result), w') \<Rightarrow>
               (Inr (if py_truth result then jump_to else offset, result), w'))"

text \<open>Calling an instruction dispatches on its class.\<close>

fun call :: "Instruction \<Rightarrow> int \<Rightarrow> int list \<Rightarrow> world \<Rightarrow> (exc + int \<times> pyval) \<times> world" where
  "call (Instruction g n out) pos args w = Instruction_call (Instruction g n out) pos args w"
| "call (JumpInstruction g n out) pos args w =
     JumpInstruction_call (JumpInstruction g n out) pos args w"

record BoundInstruction =
  instruction :: Instruction
  modes :: "ParameterMode list"
  offset :: int

text \<open>
  The CPU object, with the world its instruction bodies act on carried along.
\<close>

record CPU =
  memory :: Memory
  pos :: int
  opcodes :: "int \<rightharpoonup> Instruction"
  world :: world

text \<open>A generator that raises stops at its first exception.\<close>

fun collect :: "('a \<Rightarrow> exc + 'b) \<Rightarrow> 'a list \<Rightarrow> exc + 'b list" where
  "collect g [] = Inr []"
| "collect g (x # xs) =
     (case g x of
        Inl e \<Rightarrow> Inl e
      | Inr y \<Rightarrow> (case collect g xs of Inl e \<Rightarrow> Inl e | Inr ys \<Rightarrow> Inr (y # ys)))"

text \<open>
  \<open>Instruction.bind\<close>: the mode of argument \<open>i\<close> is digit \<open>i\<close> of \<open>opcode // 100\<close>,
  for \<open>i\<close> in \<open>range(arg_count)\<close>; the arguments start at \<open>cpu.pos + 1\<close>.
\<close>

definition bind :: "Instruction \<Rightarrow> int \<Rightarrow> CPU \<Rightarrow> exc + BoundInstruction" where
  "bind instr opcode cpu =
     (let modes = opcode div 100
      in case collect (\<lambda>i. ParameterMode_of (modes div (10 ^ i) mod 10)) [0 ..< arg_count instr] of
           Inl e \<Rightarrow> Inl e
         | Inr ms \<Rightarrow> Inr \<lparr>instruction = instr, modes = ms, offset = pos cpu + 1\<rparr>)"

text \<open>\<open>CPU.__getitem__\<close>: a missing key of the table raises KeyError.\<close>

definition CPU_getitem :: "CPU \<Rightarrow> int \<Rightarrow> exc + BoundInstruction" where
  "CPU_getitem cpu opcode =
     (case opcodes cpu (opcode mod 100) of
        None \<Rightarrow> Inl KeyError
      | Some instr \<Rightarrow> bind instr opcode cpu)"

text \<open>\<open>enumerate(modes, start=offset)\<close>.\<close>

fun enumerate_start :: "int \<Rightarrow> 'a list \<Rightarrow> (int \<times> 'a) list" where
  "enumerate_start i [] = []"
| "enumerate_start i (x # xs) = (i, x) # enumerate_start (i + 1) xs"

text \<open>One element of the generator \<open>args\<close>: \<open>param.get(mem, mem[i])\<close>.\<close>

definition get_arg :: "Memory \<Rightarrow> int \<times> ParameterMode \<Rightarrow> exc + int" where
  "get_arg mem ip =
     (case getitem mem (fst ip) of Inl e \<Rightarrow> Inl e | Inr word \<Rightarrow> get (snd ip) mem word)"

text \<open>
  The generator \<open>args\<close> of \<open>BoundInstruction.__call__\<close>, consumed by the call
  \<open>instr(pos, *args)\<close>.
\<close>

definition args_of :: "BoundInstruction \<Rightarrow> Memory \<Rightarrow> exc + int list" where
  "args_of b mem = collect (get_arg mem) (enumerate_start (offset b) (modes b))"

text \<open>
  \<open>BoundInstruction.__call__\<close>: the new position or the exception raised, and the CPU
  as the call leaves it.  The target is read before \<open>int(result)\<close> is taken, and the
  store comes last.
\<close>

definition BoundInstruction_call :: "BoundInstruction \<Rightarrow> CPU \<Rightarrow> (exc + int) \<times> CPU" where
  "BoundInstruction_call b cpu =
     (let mem = memory cpu; instr = instruction b
      in case args_of b mem of
           Inl e \<Rightarrow> (Inl e, cpu)
         | Inr args \<Rightarrow>
             (case call instr (pos cpu) args (world cpu) of
                (Inl e, w') \<Rightarrow> (Inl e, cpu\<lparr>world := w'\<rparr>)
              | (Inr (newpos, result), w') \<Rightarrow>
                  if output' instr then
                    (case getitem mem (offset b + int (arg_count instr)) of
                       Inl e \<Rightarrow> (Inl e, cpu\<lparr>world := w'\<rparr>)
                     | Inr target \<Rightarrow>
                         (case py_int result of
                            Inl e \<Rightarrow> (Inl e, cpu\<lparr>world := w'\<rparr>)
                          | Inr v \<Rightarrow>
                              (case setitem mem target v of
                                 Inl e \<Rightarrow> (Inl e, cpu\<lparr>world := w'\<rparr>)
                               | Inr mem' \<Rightarrow> (Inr newpos, cpu\<lparr>memory := mem', world := w'\<rparr>))))
                  else (Inr newpos, cpu\<lparr>world := w'\<rparr>)))"

text \<open>\<open>CPU.reset\<close>: a copy of the list (an empty one for None), position 0.\<close>

definition reset :: "CPU \<Rightarrow> Memory option \<Rightarrow> CPU" where
  "reset cpu mem = cpu\<lparr>memory := (case mem of None \<Rightarrow> [] | Some m \<Rightarrow> m), pos := 0\<rparr>"

text \<open>
  One round of the loop of \<open>CPU.execute\<close>, \<open>self.pos = self[mem[self.pos]]()\<close>:
  the exception raised, if any, and the CPU after the round.
\<close>

definition step :: "CPU \<Rightarrow> exc option \<times> CPU" where
  "step cpu =
     (case getitem (memory cpu) (pos cpu) of
        Inl e \<Rightarrow> (Some e, cpu)
      | Inr opcode \<Rightarrow>
          (case CPU_getitem cpu opcode of
             Inl e \<Rightarrow> (Some e, cpu)
           | Inr b \<Rightarrow>
               (case BoundInstruction_call b cpu of
                  (Inl e, cpu') \<Rightarrow> (Some e, cpu')
                | (Inr newpos, cpu') \<Rightarrow> (None, cpu'\<lparr>pos := newpos\<rparr>))))"

text \<open>
  \<open>while True\<close>: the loop ends only with an exception; a program that never raises
  gives no value.
\<close>

partial_function (option) loop :: "CPU \<Rightarrow> (exc \<times> CPU) option" where
  "loop cpu = (case step cpu of (Some e, cpu') \<Rightarrow> Some (e, cpu') | (None, cpu') \<Rightarrow> loop cpu')"

text \<open>
  \<open>CPU.execute\<close>: \<open>Halt\<close> is caught and the method returns (\<open>None\<close> here), any
  other exception goes to the caller (\<open>Some e\<close>).
\<close>

definition execute :: "CPU \<Rightarrow> Memory \<Rightarrow> (exc option \<times> CPU) option" where
  "execute cpu mem =
     (case loop (reset cpu (Some mem)) of
        None \<Rightarrow> None
      | Some (e, cpu') \<Rightarrow> if e = Halt then Some (None, cpu') else Some (Some e, cpu'))"

text \<open>
  The CPUs the loop passes through: \<open>reaches cpu cpu'\<close> when rounds that complete lead
  from \<open>cpu\<close> to \<open>cpu'\<close>.
\<close>

inductive reaches :: "CPU \<Rightarrow> CPU \<Rightarrow> bool" where
  here: "reaches cpu cpu"
| round: "step cpu = (None, cpu') \<Longrightarrow> reaches cpu' cpu'' \<Longrightarrow> reaches cpu cpu''"

text \<open>The instruction tables of the notebook.\<close>

definition base_opcodes :: "int \<rightharpoonup> Instruction" where
  "base_opcodes =
     [1 \<mapsto> Instruction operator_add 2 True,
      2 \<mapsto> Instruction operator_mul 2 True,
      3 \<mapsto> Instruction py_input 0 True,
      4 \<mapsto> Instruction py_print 1 False,
      99 \<mapsto> Instruction halt 0 False]"

definition part1_opcodes :: "int \<rightharpoonup> Instruction" where
  "part1_opcodes =
     base_opcodes(3 \<mapsto> Instruction (const_input 1) 0 True,
                  4 \<mapsto> Instruction outputs_append 1 False)"

definition jump_opcodes :: "int \<rightharpoonup> Instruction" where
  "jump_opcodes =
     base_opcodes(5 \<mapsto> JumpInstruction py_bool 2 False,
                  6 \<mapsto> JumpInstruction operator_not 2 False,
                  7 \<mapsto> Instruction operator_lt 2 True,
                  8 \<mapsto> Instruction operator_eq 2 True)"

definition test_opcodes :: "int \<Rightarrow> int \<rightharpoonup> Instruction" where
  "test_opcodes inp =
     jump_opcodes(3 \<mapsto> Instruction (const_input inp) 0 True,
                  4 \<mapsto> Instruction outputs_append 1 False)"

definition part2_opcodes :: "int \<rightharpoonup> Instruction" where
  "part2_opcodes =
     jump_opcodes(3 \<mapsto> Instruction (const_input 5) 0 True,
                  4 \<mapsto> Instruction outputs_append 1 False)"

definition test_mem :: Memory where
  "test_mem = [1, 9, 10, 3, 2, 3, 11, 0, 99, 30, 40, 50]"


section \<open>Day 2: the first CPU\<close>

text \<open>
  The Day 2 notebook has its own \<open>Instruction\<close> and \<open>CPU\<close>; their names carry the
  prefix \<open>d2_\<close> here.  \<open>CPU.reset\<close> copies the caller's list, so the lists are
  objects of a store: an address is an index into the list of all list objects, and a
  new object goes to the end.
\<close>

type_synonym ref = nat
type_synonym heap = "Memory list"

text \<open>\<open>xs[lo:hi]\<close>: a slice clamps its bounds and never raises.\<close>

definition slice :: "'a list \<Rightarrow> int \<Rightarrow> int \<Rightarrow> 'a list" where
  "slice xs lo hi =
     (let n = int (length xs);
          a = (if lo < 0 then max 0 (lo + n) else min lo n);
          b = (if hi < 0 then max 0 (hi + n) else min hi n)
      in take (nat (b - a)) (drop (nat a) xs))"

record d2_Instruction =
  d2_f :: "int list \<Rightarrow> exc + int"
  paramater_count :: nat

fun d2_add :: "int list \<Rightarrow> exc + int" where
  "d2_add [a, b] = Inr (a + b)"
| "d2_add _ = Inl TypeError"

fun d2_mul :: "int list \<Rightarrow> exc + int" where
  "d2_mul [a, b] = Inr (a * b)"
| "d2_mul _ = Inl TypeError"

fun d2_halt :: "int list \<Rightarrow> exc + int" where
  "d2_halt [] = Inl Halt"
| "d2_halt _ = Inl TypeError"

text \<open>
  Day 2's \<open>Instruction.__call__(memory, *parameters)\<close>: the last parameter is the
  output address, the others are addresses to read; with no parameters \<open>f\<close> is called
  alone.
\<close>

definition d2_Instruction_call :: "d2_Instruction \<Rightarrow> Memory \<Rightarrow> int list \<Rightarrow> exc + Memory" where
  "d2_Instruction_call op mem parameters =
     (if parameters \<noteq> [] then
        let inputs = butlast parameters; out = last parameters
        in case collect (getitem mem) inputs of
             Inl e \<Rightarrow> Inl e
           | Inr vals \<Rightarrow> (case d2_f op vals of Inl e \<Rightarrow> Inl e | Inr v \<Rightarrow> setitem mem out v)
      else (case d2_f op [] of Inl e \<Rightarrow> Inl e | Inr v \<Rightarrow> Inr mem))"

text \<open>The class attribute \<open>CPU.opcodes\<close>.\<close>

definition d2_opcodes :: "int \<rightharpoonup> d2_Instruction" where
  "d2_opcodes =
     [1 \<mapsto> \<lparr>d2_f = d2_add, paramater_count = 3\<rparr>,
      2 \<mapsto> \<lparr>d2_f = d2_mul, paramater_count = 3\<rparr>,
      99 \<mapsto> \<lparr>d2_f = d2_halt, paramater_count = 0\<rparr>]"

record d2_CPU =
  d2_memory :: ref
  d2_pos :: int

text \<open>\<open>CPU.reset\<close>: \<open>self.memory = memory[:]\<close> makes a new list object.\<close>

definition d2_reset :: "heap \<Rightarrow> d2_CPU \<Rightarrow> ref option \<Rightarrow> heap \<times> d2_CPU" where
  "d2_reset h cpu mem =
     (h @ [case mem of None \<Rightarrow> [] | Some r \<Rightarrow> h ! r], cpu\<lparr>d2_memory := length h, d2_pos := 0\<rparr>)"

text \<open>
  One round of the loop of Day 2's \<open>CPU.execute\<close>; \<open>m\<close> is the local variable
  \<open>memory\<close>, the address of the list the loop works on.
\<close>

definition d2_step :: "heap \<Rightarrow> ref \<Rightarrow> d2_CPU \<Rightarrow> exc option \<times> heap \<times> d2_CPU" where
  "d2_step h m cpu =
     (case getitem (h ! m) (d2_pos cpu) of
        Inl e \<Rightarrow> (Some e, h, cpu)
      | Inr opcode \<Rightarrow>
          (case d2_opcodes opcode of
             None \<Rightarrow> (Some KeyError, h, cpu)
           | Some op \<Rightarrow>
               let paramcount = int (paramater_count op);
                   parameters = slice (h ! m) (d2_pos cpu + 1) (d2_pos cpu + 1 + paramcount)
               in case d2_Instruction_call op (h ! m) parameters of
                    Inl e \<Rightarrow> (Some e, h, cpu)
                  | Inr mem' \<Rightarrow> (None, h[m := mem'], cpu\<lparr>d2_pos := d2_pos cpu + (1 + paramcount)\<rparr>)))"

text \<open>
  The position grows in every round and a store keeps the length of the list, so this
  loop ends: at the latest with the IndexError of a fetch behind the end.
\<close>

lemma setitem_length: "setitem mem i v = Inr mem' \<Longrightarrow> length mem' = length mem"
  by (auto simp: setitem_def Let_def split: if_splits)

lemma d2_Instruction_call_length:
  "d2_Instruction_call op mem ps = Inr mem' \<Longrightarrow> length mem' = length mem"
  by (auto simp: d2_Instruction_call_def Let_def split: if_splits sum.splits dest: setitem_length)

lemma getitem_bound: "getitem mem i = Inr v \<Longrightarrow> i < int (length mem)"
  by (auto simp: getitem_def Let_def split: if_splits)

lemma d2_step_measure:
  assumes "d2_step h m cpu = (None, h', cpu')"
  shows "nat (int (length (h' ! m)) - d2_pos cpu') < nat (int (length (h ! m)) - d2_pos cpu)"
proof -
  from assms obtain opcode op mem' where
    fetch: "getitem (h ! m) (d2_pos cpu) = Inr opcode" and
    run: "d2_Instruction_call op (h ! m)
          (slice (h ! m) (d2_pos cpu + 1) (d2_pos cpu + 1 + int (paramater_count op))) = Inr mem'" and
    h': "h' = h[m := mem']" and p: "d2_pos cpu' = d2_pos cpu + (1 + int (paramater_count op))"
    by (auto simp: d2_step_def Let_def split: sum.splits option.splits)
  have len: "length (h' ! m) = length (h ! m)"
  proof (cases "m < length h")
    case True
    then show ?thesis using h' d2_Instruction_call_length[OF run] by simp
  next
    case False
    then show ?thesis using h' by (simp add: list_update_beyond)
  qed
  from getitem_bound[OF fetch] len p show ?thesis by simp
qed

function d2_loop :: "heap \<Rightarrow> ref \<Rightarrow> d2_CPU \<Rightarrow> exc \<times> heap \<times> d2_CPU" where
  "d2_loop h m cpu =
     (case d2_step h m cpu of
        (Some e, h', cpu') \<Rightarrow> (e, h', cpu')
      | (None, h', cpu') \<Rightarrow> d2_loop h' m cpu')"
  by pat_completeness auto
termination
  apply (relation "measure (\<lambda>(h, m, cpu). nat (int (length (h ! m)) - d2_pos cpu))")
   apply simp
  subgoal for h m cpu x y h' cpu'
    using d2_step_measure [of h m cpu h' cpu'] by simp
  done

declare d2_loop.simps [simp del]

text \<open>
  Day 2's \<open>CPU.execute(memory, noun, verb)\<close>: reset, the two overrides, the loop;
  on \<open>Halt\<close> it returns \<open>memory[0]\<close>, any other exception goes to the caller.
\<close>

definition d2_execute ::
  "heap \<Rightarrow> d2_CPU \<Rightarrow> ref \<Rightarrow> int option \<Rightarrow> int option \<Rightarrow> (exc + int) \<times> heap \<times> d2_CPU" where
  "d2_execute h cpu mem noun verb =
     (let (h0, cpu0) = d2_reset h cpu (Some mem); m = d2_memory cpu0
      in case (case noun of None \<Rightarrow> Inr (h0 ! m) | Some n \<Rightarrow> setitem (h0 ! m) 1 n) of
           Inl e \<Rightarrow> (Inl e, h0, cpu0)
         | Inr mem1 \<Rightarrow>
             (case (case verb of None \<Rightarrow> Inr mem1 | Some v \<Rightarrow> setitem mem1 2 v) of
                Inl e \<Rightarrow> (Inl e, h0[m := mem1], cpu0)
              | Inr mem2 \<Rightarrow>
                  (case d2_loop (h0[m := mem2]) m cpu0 of
                     (e, h', cpu') \<Rightarrow>
                       if e = Halt then (getitem (h' ! m) 0, h', cpu') else (Inl e, h', cpu'))))"


text \<open>
  What the caller sees of a run: the value returned or the exception, and the memory and
  position of the CPU object afterwards.
\<close>

definition d2_outcome :: "(exc + int) \<times> heap \<times> d2_CPU \<Rightarrow> (exc + int) \<times> Memory \<times> int" where
  "d2_outcome x = (case x of (res, h, cpu) \<Rightarrow> (res, h ! d2_memory cpu, d2_pos cpu))"

text \<open>A console with nothing typed and nothing printed, and a CPU object on it.\<close>

definition console0 :: world where
  "console0 = \<lparr>stdin = [], stdout = [], outputs = []\<rparr>"

definition cpu_on :: "(int \<rightharpoonup> Instruction) \<Rightarrow> Memory \<Rightarrow> int \<Rightarrow> CPU" where
  "cpu_on table mem p = \<lparr>memory = mem, pos = p, opcodes = table, world = console0\<rparr>"


section \<open>Running the loops\<close>

lemmas engine_defs = step_def getitem_def setitem_def CPU_getitem_def bind_def
  ParameterMode_of_def BoundInstruction_call_def args_of_def get_arg_def Instruction_call_def
  JumpInstruction_call_def

lemmas d2_defs = d2_step_def getitem_def setitem_def d2_opcodes_def slice_def
  d2_Instruction_call_def

lemma loop_raise: "step cpu = (Some e, cpu') \<Longrightarrow> loop cpu = Some (e, cpu')"
  by (subst loop.simps) simp

lemma loop_next: "step cpu = (None, cpu') \<Longrightarrow> loop cpu = loop cpu'"
  by (subst loop.simps) simp

lemma d2_loop_raise: "d2_step h m cpu = (Some e, h', cpu') \<Longrightarrow> d2_loop h m cpu = (e, h', cpu')"
  by (subst d2_loop.simps) simp

lemma d2_loop_next: "d2_step h m cpu = (None, h', cpu') \<Longrightarrow> d2_loop h m cpu = d2_loop h' m cpu'"
  by (subst d2_loop.simps) simp


section \<open>Generators, binding and one round of the loop\<close>

lemma collect_Inr_iff:
  "collect g xs = Inr ys \<longleftrightarrow>
     length ys = length xs \<and> (\<forall>i<length xs. g (xs ! i) = Inr (ys ! i))"
proof (induction xs arbitrary: ys)
  case Nil
  then show ?case by auto
next
  case (Cons x xs)
  show ?case
  proof (cases ys)
    case Nil
    then show ?thesis by (simp split: sum.splits)
  next
    case (Cons y ys')
    then show ?thesis
      using Cons.IH [of ys'] by (auto simp: nth_Cons split: sum.splits nat.splits)
  qed
qed

lemma collect_Inl_D: "collect g xs = Inl e \<Longrightarrow> \<exists>i<length xs. g (xs ! i) = Inl e"
proof (induction xs)
  case Nil
  then show ?case by simp
next
  case (Cons x xs)
  then show ?case
    by (fastforce split: sum.splits simp: nth_Cons split: nat.splits)
qed

lemma collect_Inl_I:
  assumes "i < length xs" and "g (xs ! i) = Inl e"
    and "\<And>x e'. x \<in> set xs \<Longrightarrow> g x = Inl e' \<Longrightarrow> e' = e"
  shows "collect g xs = Inl e"
proof (cases "collect g xs")
  case (Inl e')
  from collect_Inl_D[OF this] obtain j where "j < length xs" "g (xs ! j) = Inl e'" by blast
  then have "e' = e" using assms(3) [of "xs ! j" e'] by simp
  then show ?thesis using Inl by simp
next
  case (Inr ys)
  then show ?thesis using assms(1,2) by (simp add: collect_Inr_iff)
qed

lemma length_enumerate_start [simp]: "length (enumerate_start i xs) = length xs"
  by (induction xs arbitrary: i) auto

lemma nth_enumerate_start [simp]:
  "k < length xs \<Longrightarrow> enumerate_start i xs ! k = (i + int k, xs ! k)"
  by (induction xs arbitrary: i k) (auto simp: nth_Cons split: nat.splits)

lemma step_None_E:
  assumes "step cpu = (None, cpu')"
  obtains opcode instr b args newpos result w' where
    "getitem (memory cpu) (pos cpu) = Inr opcode"
    "opcodes cpu (opcode mod 100) = Some instr"
    "bind instr opcode cpu = Inr b"
    "args_of b (memory cpu) = Inr args"
    "call instr (pos cpu) args (world cpu) = (Inr (newpos, result), w')"
    "output' instr \<Longrightarrow> \<exists>target v mem'.
        getitem (memory cpu) (offset b + int (arg_count instr)) = Inr target \<and>
        py_int result = Inr v \<and> setitem (memory cpu) target v = Inr mem' \<and>
        cpu' = cpu\<lparr>memory := mem', world := w', pos := newpos\<rparr>"
    "\<not> output' instr \<Longrightarrow> cpu' = cpu\<lparr>world := w', pos := newpos\<rparr>"
proof -
  from assms obtain opcode where 1: "getitem (memory cpu) (pos cpu) = Inr opcode"
    by (auto simp: step_def split: sum.splits)
  from assms 1 obtain b where 2: "CPU_getitem cpu opcode = Inr b"
    by (auto simp: step_def split: sum.splits)
  then obtain instr where 3: "opcodes cpu (opcode mod 100) = Some instr" "bind instr opcode cpu = Inr b"
    by (auto simp: CPU_getitem_def split: option.splits)
  then have ib: "instruction b = instr"
    by (auto simp: bind_def Let_def split: sum.splits)
  from assms 1 2 obtain newpos c where 4: "BoundInstruction_call b cpu = (Inr newpos, c)" "cpu' = c\<lparr>pos := newpos\<rparr>"
    by (auto simp: step_def split: sum.splits prod.splits)
  from 4(1) obtain args where 5: "args_of b (memory cpu) = Inr args"
    by (auto simp: BoundInstruction_call_def Let_def split: sum.splits)
  from 4(1) 5 ib obtain np result w' where 6: "call instr (pos cpu) args (world cpu) = (Inr (np, result), w')"
    by (auto simp: BoundInstruction_call_def Let_def split: sum.splits prod.splits)
  have 7: "output' instr \<Longrightarrow> \<exists>target v mem'.
        getitem (memory cpu) (offset b + int (arg_count instr)) = Inr target \<and>
        py_int result = Inr v \<and> setitem (memory cpu) target v = Inr mem' \<and>
        cpu' = cpu\<lparr>memory := mem', world := w', pos := np\<rparr>"
    using 4 5 6 ib by (auto simp: BoundInstruction_call_def Let_def split: sum.splits)
  have 8: "\<not> output' instr \<Longrightarrow> cpu' = cpu\<lparr>world := w', pos := np\<rparr>"
    using 4 5 6 ib by (auto simp: BoundInstruction_call_def Let_def split: sum.splits)
  from that[OF 1 3 5 6 7 8] show thesis by blast
qed

lemma ParameterMode_of_Inr:
  "ParameterMode_of d = Inr m \<longleftrightarrow> (d = 0 \<and> m = position) \<or> (d = 1 \<and> m = immediate)"
  by (auto simp: ParameterMode_of_def)

lemma get_digit:
  assumes "ParameterMode_of d = Inr m" and "get m mem word = Inr v"
  shows "d = 1 \<and> v = word \<or> d = 0 \<and> getitem mem word = Inr v"
  using assms by (cases m) (auto simp: ParameterMode_of_Inr)

lemma bind_Inr_D:
  assumes "bind instr opcode cpu = Inr b"
  shows "instruction b = instr" and "offset b = pos cpu + 1"
    and "length (modes b) = arg_count instr"
    and "i < arg_count instr \<Longrightarrow>
           ParameterMode_of (opcode div 100 div 10 ^ i mod 10) = Inr (modes b ! i)"
proof -
  from assms obtain ms where
    ms: "collect (\<lambda>i. ParameterMode_of (opcode div 100 div 10 ^ i mod 10)) [0 ..< arg_count instr] = Inr ms"
    and b: "b = \<lparr>instruction = instr, modes = ms, offset = pos cpu + 1\<rparr>"
    by (auto simp: bind_def Let_def split: sum.splits)
  from b show "instruction b = instr" and "offset b = pos cpu + 1" by simp_all
  from ms b show "length (modes b) = arg_count instr"
    by (simp add: collect_Inr_iff)
  from ms b show "i < arg_count instr \<Longrightarrow>
           ParameterMode_of (opcode div 100 div 10 ^ i mod 10) = Inr (modes b ! i)"
    by (simp add: collect_Inr_iff)
qed

lemma args_of_Inr_D:
  assumes "args_of b mem = Inr args"
  shows "length args = length (modes b)"
    and "k < length (modes b) \<Longrightarrow>
          \<exists>word. getitem mem (offset b + int k) = Inr word \<and>
                 get (modes b ! k) mem word = Inr (args ! k)"
proof -
  from assms show "length args = length (modes b)"
    by (simp add: args_of_def collect_Inr_iff)
  assume "k < length (modes b)"
  with assms have "get_arg mem (offset b + int k, modes b ! k) = Inr (args ! k)"
    by (simp add: args_of_def collect_Inr_iff)
  then show "\<exists>word. getitem mem (offset b + int k) = Inr word \<and>
                 get (modes b ! k) mem word = Inr (args ! k)"
    by (auto simp: get_arg_def split: sum.splits)
qed


lemma step_pos:
  assumes "step cpu = (None, cpu')" and "getitem (memory cpu) (pos cpu) = Inr w"
  obtains instr b args result w' where
    "opcodes cpu (w mod 100) = Some instr"
    "bind instr w cpu = Inr b"
    "args_of b (memory cpu) = Inr args"
    "length args = arg_count instr"
    "call instr (pos cpu) args (world cpu) = (Inr (pos cpu', result), w')"
    "if output' instr
     then \<exists>target v. getitem (memory cpu) (pos cpu + 1 + int (arg_count instr)) = Inr target \<and>
            py_int result = Inr v \<and> setitem (memory cpu) target v = Inr (memory cpu')
     else memory cpu' = memory cpu"
proof -
  obtain opcode instr b args newpos result w' where
    f: "getitem (memory cpu) (pos cpu) = Inr opcode" and
    l: "opcodes cpu (opcode mod 100) = Some instr" and
    b: "bind instr opcode cpu = Inr b" and
    a: "args_of b (memory cpu) = Inr args" and
    c: "call instr (pos cpu) args (world cpu) = (Inr (newpos, result), w')" and
    o: "output' instr \<Longrightarrow> \<exists>target v mem'.
        getitem (memory cpu) (offset b + int (arg_count instr)) = Inr target \<and>
        py_int result = Inr v \<and> setitem (memory cpu) target v = Inr mem' \<and>
        cpu' = cpu\<lparr>memory := mem', world := w', pos := newpos\<rparr>" and
    n: "\<not> output' instr \<Longrightarrow> cpu' = cpu\<lparr>world := w', pos := newpos\<rparr>"
    using assms(1) by (elim step_None_E) (rule that; assumption)
  from f assms(2) have ow: "opcode = w" by simp
  note bd = bind_Inr_D [OF b]
  have len: "length args = arg_count instr"
    using args_of_Inr_D(1) [OF a] bd(3) by simp
  have p: "pos cpu' = newpos"
    using o n by (cases "output' instr") auto
  have m: "if output' instr
     then \<exists>target v. getitem (memory cpu) (pos cpu + 1 + int (arg_count instr)) = Inr target \<and>
            py_int result = Inr v \<and> setitem (memory cpu) target v = Inr (memory cpu')
     else memory cpu' = memory cpu"
  proof (cases "output' instr")
    case True
    with o obtain target v mem' where
      "getitem (memory cpu) (offset b + int (arg_count instr)) = Inr target"
      "py_int result = Inr v" "setitem (memory cpu) target v = Inr mem'"
      "cpu' = cpu\<lparr>memory := mem', world := w', pos := newpos\<rparr>"
      by blast
    then show ?thesis using True by (simp add: bd(2))
  next
    case False
    with n show ?thesis by simp
  qed
  show thesis
    using that [OF l [unfolded ow] b [unfolded ow] a len c [folded p] m] .
qed

lemma length2_cases: "length xs = 2 \<Longrightarrow> \<exists>x y. xs = [x, y]"
  by (cases xs; cases "tl xs") auto

lemma jump_opcodes_5: "jump_opcodes 5 = Some (JumpInstruction py_bool 2 False)"
  and jump_opcodes_6: "jump_opcodes 6 = Some (JumpInstruction operator_not 2 False)"
  and jump_opcodes_7: "jump_opcodes 7 = Some (Instruction operator_lt 2 True)"
  and jump_opcodes_8: "jump_opcodes 8 = Some (Instruction operator_eq 2 True)"
  by (simp_all add: jump_opcodes_def)

lemma py_bool_world: "py_bool xs w = (r, w') \<Longrightarrow> w' = w"
  by (cases "(xs, w)" rule: py_bool.cases) auto

lemma operator_not_world: "operator_not xs w = (r, w') \<Longrightarrow> w' = w"
  by (cases "(xs, w)" rule: operator_not.cases) auto

lemma jump_call_world:
  assumes "g = py_bool \<or> g = operator_not"
    and "call (JumpInstruction g n out) p args w = (r, w')"
  shows "w' = w"
  using assms
  by (auto simp: JumpInstruction_call_def Instruction_call_def Let_def
      split: if_splits prod.splits sum.splits dest: py_bool_world operator_not_world)

lemma no_output_frame:
  assumes "\<not> output' (instruction b)"
  shows "snd (BoundInstruction_call b cpu) = cpu \<or>
         (\<exists>args. args_of b (memory cpu) = Inr args \<and>
            snd (BoundInstruction_call b cpu) =
              cpu\<lparr>world := snd (call (instruction b) (pos cpu) args (world cpu))\<rparr>)"
  using assms
  by (auto simp: BoundInstruction_call_def Let_def split: sum.splits prod.splits)

lemma step_frame:
  assumes "getitem (memory cpu) (pos cpu) = Inr w"
    and "opcodes cpu (w mod 100) = Some instr" and "\<not> output' instr"
  shows "(\<exists>p. snd (step cpu) = cpu\<lparr>pos := p\<rparr>) \<or>
         (\<exists>p args. snd (step cpu) =
              cpu\<lparr>world := snd (call instr (pos cpu) args (world cpu)), pos := p\<rparr>)"
proof (cases "bind instr w cpu")
  case (Inl e)
  with assms have "snd (step cpu) = cpu\<lparr>pos := pos cpu\<rparr>"
    by (simp add: step_def CPU_getitem_def)
  then show ?thesis by blast
next
  case (Inr b)
  then have ib: "instruction b = instr" by (rule bind_Inr_D)
  obtain r c where bc: "BoundInstruction_call b cpu = (r, c)" by (cases "BoundInstruction_call b cpu")
  with assms Inr have st: "snd (step cpu) = (case r of Inl e \<Rightarrow> c | Inr newpos \<Rightarrow> c\<lparr>pos := newpos\<rparr>)"
    by (simp add: step_def CPU_getitem_def split: sum.splits)
  from no_output_frame [of b cpu] assms(3) ib bc
  consider "c = cpu" | args where "c = cpu\<lparr>world := snd (call instr (pos cpu) args (world cpu))\<rparr>"
    by auto
  then show ?thesis
  proof cases
    case 1
    have "snd (step cpu) = cpu\<lparr>pos := (case r of Inl e \<Rightarrow> pos cpu | Inr newpos \<Rightarrow> newpos)\<rparr>"
      using st 1 by (simp split: sum.splits)
    then show ?thesis by blast
  next
    case 2
    have "snd (step cpu) = cpu\<lparr>world := snd (call instr (pos cpu) args (world cpu)),
             pos := (case r of Inl e \<Rightarrow> pos cpu | Inr newpos \<Rightarrow> newpos)\<rparr>"
      using st 2 by (simp split: sum.splits)
    then show ?thesis by blast
  qed
qed

lemma cpu_on_sel:
  "memory (cpu_on table mem p) = mem" "pos (cpu_on table mem p) = p"
  "opcodes (cpu_on table mem p) = table" "world (cpu_on table mem p) = console0"
  by (simp_all add: cpu_on_def)

lemma reaches_loop: "reaches cpu cpu' \<Longrightarrow> loop cpu = loop cpu'"
  by (induction rule: reaches.induct) (simp_all add: loop_next)

lemma loop_Some_D':
  "loop cpu = Some r \<Longrightarrow> \<exists>c. reaches cpu c \<and> step c = (Some (fst r), snd r)"
proof (induction rule: loop.raw_induct [rotated, consumes 1])
  case (1 loop' cpu r)
  obtain x c1 where st: "step cpu = (x, c1)" by (cases "step cpu")
  show ?case
  proof (cases x)
    case None
    with 1(2) st have "loop' c1 = Some r" by simp
    from 1(1) [OF this] obtain c where "reaches c1 c" "step c = (Some (fst r), snd r)" by blast
    with st None show ?thesis by (blast intro: reaches.round)
  next
    case (Some e')
    with 1(2) st have "step cpu = (Some (fst r), snd r)" by auto
    then show ?thesis by (blast intro: reaches.here)
  qed
qed

lemma loop_Some_D:
  "loop cpu = Some (e, cpu') \<Longrightarrow> \<exists>c. reaches cpu c \<and> step c = (Some e, cpu')"
  by (drule loop_Some_D') simp

lemma execute_raise:
  assumes "reaches (reset cpu (Some mem)) c" and "step c = (Some e, c')"
  shows "execute cpu mem = Some (if e = Halt then None else Some e, c')"
  using reaches_loop [OF assms(1)] loop_raise [OF assms(2)] by (simp add: execute_def)

lemma getitem_Inl: "getitem mem i = Inl e \<Longrightarrow> e = IndexError"
  by (auto simp: getitem_def Let_def split: if_splits)

lemma setitem_Inl: "setitem mem i v = Inl e \<Longrightarrow> e = IndexError"
  by (auto simp: setitem_def Let_def split: if_splits)

lemma get_arg_Inl: "get_arg mem ip = Inl e \<Longrightarrow> e = IndexError"
  by (cases "snd ip") (auto simp: get_arg_def split: sum.splits dest: getitem_Inl)

lemma args_of_Inl: "args_of b mem = Inl e \<Longrightarrow> e = IndexError"
  unfolding args_of_def by (drule collect_Inl_D) (auto dest: get_arg_Inl)

lemma py_int_Inl: "py_int r = Inl e \<Longrightarrow> e = TypeError \<or> e = ValueError"
  by (cases r) (auto split: option.splits)

lemma bind_Inl: "bind instr w cpu = Inl e \<Longrightarrow> e = ValueError"
proof -
  assume "bind instr w cpu = Inl e"
  then have "collect (\<lambda>i. ParameterMode_of (w div 100 div 10 ^ i mod 10)) [0 ..< arg_count instr] = Inl e"
    by (auto simp: bind_def Let_def split: sum.splits)
  from collect_Inl_D [OF this] show "e = ValueError"
    by (auto simp: ParameterMode_of_def split: if_splits)
qed

lemma call_Halt:
  assumes "call instr p args w = (Inl Halt, w')"
  shows "\<exists>args'. f instr args' w = (Inl Halt, w')"
proof (cases instr)
  case (Instruction g n out)
  with assms show ?thesis
    by (auto simp: Instruction_call_def Let_def split: prod.splits sum.splits)
next
  case (JumpInstruction g n out)
  with assms show ?thesis
    by (auto simp: JumpInstruction_call_def Instruction_call_def Let_def
        split: if_splits prod.splits sum.splits)
qed

lemma BoundInstruction_call_Halt:
  assumes "BoundInstruction_call b cpu = (Inl Halt, c')"
  shows "\<exists>args w'. f (instruction b) args (world cpu) = (Inl Halt, w') \<and> c' = cpu\<lparr>world := w'\<rparr>"
proof -
  from assms obtain args where a: "args_of b (memory cpu) = Inr args"
    by (auto simp: BoundInstruction_call_def Let_def split: sum.splits dest: args_of_Inl)
  obtain r w' where c: "call (instruction b) (pos cpu) args (world cpu) = (r, w')"
    by (cases "call (instruction b) (pos cpu) args (world cpu)")
  from assms a c have "r = Inl Halt \<and> c' = cpu\<lparr>world := w'\<rparr>"
    by (auto simp: BoundInstruction_call_def Let_def
        split: sum.splits prod.splits if_splits
        dest: getitem_Inl setitem_Inl py_int_Inl)
  with c call_Halt [of "instruction b" "pos cpu" args "world cpu" w'] show ?thesis by auto
qed

lemma step_Halt:
  assumes "step cpu = (Some Halt, c')"
  shows "\<exists>w instr args w'. getitem (memory cpu) (pos cpu) = Inr w \<and>
           opcodes cpu (w mod 100) = Some instr \<and>
           f instr args (world cpu) = (Inl Halt, w') \<and> c' = cpu\<lparr>world := w'\<rparr>"
proof -
  from assms obtain w where fe: "getitem (memory cpu) (pos cpu) = Inr w"
    by (auto simp: step_def split: sum.splits dest: getitem_Inl)
  from assms fe obtain instr where l: "opcodes cpu (w mod 100) = Some instr"
    by (auto simp: step_def CPU_getitem_def split: sum.splits option.splits)
  from assms fe l obtain b where b: "bind instr w cpu = Inr b"
    by (auto simp: step_def CPU_getitem_def split: sum.splits dest: bind_Inl)
  from assms fe l b have "BoundInstruction_call b cpu = (Inl Halt, c')"
    by (auto simp: step_def CPU_getitem_def split: sum.splits prod.splits)
  from BoundInstruction_call_Halt [OF this] bind_Inr_D(1) [OF b] fe l show ?thesis by auto
qed

lemma step_opcodes: "opcodes (snd (step cpu)) = opcodes cpu"
  by (auto simp: step_def CPU_getitem_def BoundInstruction_call_def Let_def
      split: sum.splits option.splits prod.splits)

lemma reaches_opcodes: "reaches cpu cpu' \<Longrightarrow> opcodes cpu' = opcodes cpu"
proof (induction rule: reaches.induct)
  case (here cpu)
  show ?case by simp
next
  case (round cpu cpu' cpu'')
  from step_opcodes [of cpu] round(1) have "opcodes cpu' = opcodes cpu" by simp
  with round(3) show ?case by simp
qed

lemma no_Halt:
  "operator_add xs w \<noteq> (Inl Halt, w')" "operator_mul xs w \<noteq> (Inl Halt, w')"
  "operator_lt xs w \<noteq> (Inl Halt, w')" "operator_eq xs w \<noteq> (Inl Halt, w')"
  "operator_not xs w \<noteq> (Inl Halt, w')" "py_bool xs w \<noteq> (Inl Halt, w')"
  "py_input xs w \<noteq> (Inl Halt, w')" "py_print xs w \<noteq> (Inl Halt, w')"
  "const_input v xs w \<noteq> (Inl Halt, w')" "outputs_append xs w \<noteq> (Inl Halt, w')"
proof -
  show "operator_add xs w \<noteq> (Inl Halt, w')" by (cases "(xs, w)" rule: operator_add.cases) auto
  show "operator_mul xs w \<noteq> (Inl Halt, w')" by (cases "(xs, w)" rule: operator_mul.cases) auto
  show "operator_lt xs w \<noteq> (Inl Halt, w')" by (cases "(xs, w)" rule: operator_lt.cases) auto
  show "operator_eq xs w \<noteq> (Inl Halt, w')" by (cases "(xs, w)" rule: operator_eq.cases) auto
  show "operator_not xs w \<noteq> (Inl Halt, w')" by (cases "(xs, w)" rule: operator_not.cases) auto
  show "py_bool xs w \<noteq> (Inl Halt, w')" by (cases "(xs, w)" rule: py_bool.cases) auto
  show "py_input xs w \<noteq> (Inl Halt, w')"
    by (cases "(xs, w)" rule: py_input.cases) (auto split: list.splits)
  show "py_print xs w \<noteq> (Inl Halt, w')" by (simp add: py_print_def)
  show "const_input v xs w \<noteq> (Inl Halt, w')" by (cases "(v, xs, w)" rule: const_input.cases) auto
  show "outputs_append xs w \<noteq> (Inl Halt, w')" by (cases "(xs, w)" rule: outputs_append.cases) auto
qed

lemma halt_Halt: "halt xs w = (Inl Halt, w') \<longleftrightarrow> xs = [] \<and> w' = w"
  by (cases "(xs, w)" rule: halt.cases) auto

lemma table_Halt:
  assumes "table = base_opcodes \<or> table = part1_opcodes \<or> table = jump_opcodes \<or>
           table = part2_opcodes \<or> table = test_opcodes inp"
    and "table k = Some instr" and "f instr args w = (Inl Halt, w')"
  shows "k = 99 \<and> w' = w"
  using assms
  by (auto simp: base_opcodes_def part1_opcodes_def jump_opcodes_def part2_opcodes_def
      test_opcodes_def no_Halt halt_Halt split: if_splits)

lemma nth_upt_0: "i < n \<Longrightarrow> [0 ..< n] ! i = i"
  by simp

lemma getitem_out:
  "i < - int (length m) \<or> int (length m) \<le> i \<Longrightarrow> getitem m i = Inl IndexError"
  by (auto simp: getitem_def Let_def)

lemma setitem_out:
  "i < - int (length m) \<or> int (length m) \<le> i \<Longrightarrow> setitem m i v = Inl IndexError"
  by (auto simp: setitem_def Let_def)

lemma CPU_getitem_Inr_D:
  assumes "CPU_getitem c w = Inr b"
  shows "offset b = pos c + 1" and "length (modes b) = arg_count (instruction b)"
proof -
  from assms obtain instr where "bind instr w c = Inr b"
    by (auto simp: CPU_getitem_def split: option.splits)
  from bind_Inr_D(1,2,3) [OF this]
  show "offset b = pos c + 1" and "length (modes b) = arg_count (instruction b)"
    by simp_all
qed

lemma step_bound:
  assumes "getitem (memory c) (pos c) = Inr w" and "CPU_getitem c w = Inr b"
  shows "step c = (case BoundInstruction_call b c of
                     (Inl e, c') \<Rightarrow> (Some e, c')
                   | (Inr newpos, c') \<Rightarrow> (None, c'\<lparr>pos := newpos\<rparr>))"
  using assms by (simp add: step_def)

lemma d2_step_frame:
  assumes "d2_step h m c = (x, h', c')"
  shows "length h' = length h" and "a \<noteq> m \<Longrightarrow> h' ! a = h ! a"
    and "d2_memory c' = d2_memory c"
  using assms
  by (auto simp: d2_step_def Let_def split: sum.splits option.splits)

lemma d2_step_rel:
  assumes "m < length h" and "m2 < length h2" and "h2 ! m2 = h ! m" and "d2_pos c2 = d2_pos c"
    and "d2_step h m c = (x, h', c')"
  shows "\<exists>h2' c2'. d2_step h2 m2 c2 = (x, h2', c2') \<and> h2' ! m2 = h' ! m \<and> d2_pos c2' = d2_pos c'"
  using assms
  by (auto simp: d2_step_def Let_def split: sum.splits option.splits)

lemma d2_loop_frame:
  "d2_loop h m c = (e, h', c') \<Longrightarrow>
     length h' = length h \<and> (\<forall>a. a \<noteq> m \<longrightarrow> h' ! a = h ! a) \<and> d2_memory c' = d2_memory c"
proof (induction h m c rule: d2_loop.induct)
  case (1 h m c)
  obtain x h1 c1 where st: "d2_step h m c = (x, h1, c1)" by (cases "d2_step h m c")
  note fr = d2_step_frame [OF st]
  show ?case
  proof (cases x)
    case None
    with st "1.prems" have "d2_loop h1 m c1 = (e, h', c')"
      by (simp add: d2_loop_next)
    from "1.IH" [OF st [symmetric] None refl this] fr show ?thesis by simp
  next
    case (Some e')
    with st "1.prems" have "h' = h1 \<and> c' = c1"
      by (simp add: d2_loop_raise)
    with fr show ?thesis by simp
  qed
qed

lemma d2_loop_rel:
  "m < length h \<Longrightarrow> m2 < length h2 \<Longrightarrow> h2 ! m2 = h ! m \<Longrightarrow> d2_pos c2 = d2_pos c \<Longrightarrow>
   d2_loop h m c = (e, h', c') \<Longrightarrow>
   \<exists>h2' c2'. d2_loop h2 m2 c2 = (e, h2', c2') \<and> h2' ! m2 = h' ! m \<and> d2_pos c2' = d2_pos c'"
proof (induction h m c arbitrary: h2 c2 rule: d2_loop.induct)
  case (1 h m c)
  obtain x h1 c1 where st: "d2_step h m c = (x, h1, c1)" by (cases "d2_step h m c")
  from d2_step_rel [OF "1.prems"(1-4) st] obtain g1 k1 where
    st2: "d2_step h2 m2 c2 = (x, g1, k1)" and same: "g1 ! m2 = h1 ! m" "d2_pos k1 = d2_pos c1"
    by blast
  show ?case
  proof (cases x)
    case None
    with st "1.prems"(5) have l: "d2_loop h1 m c1 = (e, h', c')"
      by (simp add: d2_loop_next)
    have len: "m < length h1" "m2 < length g1"
      using d2_step_frame(1) [OF st] d2_step_frame(1) [OF st2] "1.prems"(1,2) by simp_all
    from "1.IH" [OF st [symmetric] None refl len same l]
    obtain h2' c2' where "d2_loop g1 m2 k1 = (e, h2', c2')" "h2' ! m2 = h' ! m" "d2_pos c2' = d2_pos c'"
      by blast
    with st2 None show ?thesis by (simp add: d2_loop_next)
  next
    case (Some e')
    with st "1.prems"(5) have "e = e' \<and> h' = h1 \<and> c' = c1"
      by (simp add: d2_loop_raise)
    with st2 Some same show ?thesis by (simp add: d2_loop_raise)
  qed
qed


lemma d2_execute_eq:
  "d2_execute h c r noun verb =
     (case (case noun of None \<Rightarrow> Inr (h ! r) | Some n \<Rightarrow> setitem (h ! r) 1 n) of
        Inl e \<Rightarrow> (Inl e, h @ [h ! r], c\<lparr>d2_memory := length h, d2_pos := 0\<rparr>)
      | Inr mem1 \<Rightarrow>
          (case (case verb of None \<Rightarrow> Inr mem1 | Some v \<Rightarrow> setitem mem1 2 v) of
             Inl e \<Rightarrow> (Inl e, h @ [mem1], c\<lparr>d2_memory := length h, d2_pos := 0\<rparr>)
           | Inr mem2 \<Rightarrow>
               (case d2_loop (h @ [mem2]) (length h) (c\<lparr>d2_memory := length h, d2_pos := 0\<rparr>) of
                  (e, h', c') \<Rightarrow>
                    if e = Halt then (getitem (h' ! length h) 0, h', c') else (Inl e, h', c'))))"
  by (auto simp: d2_execute_def d2_reset_def Let_def split: sum.splits option.splits prod.splits)

lemma d2_execute_frame:
  assumes "d2_execute h c r noun verb = (res, h', c')"
  shows "length h' = Suc (length h) \<and> (\<forall>a<length h. h' ! a = h ! a) \<and> d2_memory c' = length h"
proof -
  let ?c0 = "c\<lparr>d2_memory := length h, d2_pos := 0\<rparr>"
  have loop: "length g = Suc (length h) \<and> (\<forall>a<length h. g ! a = h ! a) \<and> d2_memory k = length h"
    if "d2_loop (h @ [mem2]) (length h) ?c0 = (e, g, k)" for mem2 e g k
    using d2_loop_frame [OF that] by (auto simp: nth_append)
  from assms show ?thesis
    unfolding d2_execute_eq
    by (auto simp: nth_append split: sum.splits prod.splits if_splits dest: loop)
qed

lemma d2_execute_rel:
  assumes "h2 ! r2 = h ! r"
  shows "d2_outcome (d2_execute h2 c2 r2 noun verb) = d2_outcome (d2_execute h c r noun verb)"
proof -
  let ?k = "c\<lparr>d2_memory := length h, d2_pos := 0\<rparr>"
  let ?k2 = "c2\<lparr>d2_memory := length h2, d2_pos := 0\<rparr>"
  let ?o1 = "case noun of None \<Rightarrow> Inr (h ! r) | Some n \<Rightarrow> setitem (h ! r) 1 n"
  show ?thesis
  proof (cases ?o1)
    case (Inl e)
    then show ?thesis
      unfolding d2_execute_eq assms by (simp add: d2_outcome_def)
  next
    case o1: (Inr mem1)
    let ?o2 = "case verb of None \<Rightarrow> Inr mem1 | Some v \<Rightarrow> setitem mem1 2 v"
    show ?thesis
    proof (cases ?o2)
      case (Inl e)
      with o1 show ?thesis
        unfolding d2_execute_eq assms by (simp add: d2_outcome_def)
    next
      case (Inr mem2)
      obtain e g k where l: "d2_loop (h @ [mem2]) (length h) ?k = (e, g, k)"
        by (cases "d2_loop (h @ [mem2]) (length h) ?k")
      have "\<exists>g2 k2. d2_loop (h2 @ [mem2]) (length h2) ?k2 = (e, g2, k2) \<and>
              g2 ! length h2 = g ! length h \<and> d2_pos k2 = d2_pos k"
        by (rule d2_loop_rel [OF _ _ _ _ l]) simp_all
      then obtain g2 k2 where l2: "d2_loop (h2 @ [mem2]) (length h2) ?k2 = (e, g2, k2)"
        and same: "g2 ! length h2 = g ! length h" "d2_pos k2 = d2_pos k"
        by blast
      from d2_loop_frame [OF l] d2_loop_frame [OF l2]
      have mem: "d2_memory k = length h" "d2_memory k2 = length h2" by simp_all
      have "d2_execute h2 c2 r2 noun verb =
          (if e = Halt then (getitem (g2 ! length h2) 0, g2, k2) else (Inl e, g2, k2))"
        unfolding d2_execute_eq assms using o1 Inr l2 by simp
      moreover have "d2_execute h c r noun verb =
          (if e = Halt then (getitem (g ! length h) 0, g, k) else (Inl e, g, k))"
        unfolding d2_execute_eq using o1 Inr l by simp
      ultimately show ?thesis
        using same mem by (simp add: d2_outcome_def)
    qed
  qed
qed

lemma setitem_in:
  "- int (length m) \<le> i \<Longrightarrow> i < int (length m) \<Longrightarrow> \<exists>m'. setitem m i v = Inr m'"
  by (simp add: setitem_def Let_def)

section \<open>The example program\<close>

text \<open>
  C1.  \<open>CPU.execute\<close> on \<open>[1,9,10,3,2,3,11,0,99,30,40,50]\<close> ends with the halt
  instruction, caught by the loop, and leaves 3500 at address 0.  This holds for the
  CPU with parameter modes on the table \<open>base_opcodes\<close>, whatever its earlier memory,
  position and world, and for the Day 2 CPU called with no overrides, which returns
  3500 and leaves the caller's list as it was.
\<close>

theorem execute_test_mem:
  "execute \<lparr>memory = m, pos = p, opcodes = base_opcodes, world = w\<rparr> test_mem =
     Some (None, \<lparr>memory = [3500, 9, 10, 70, 2, 3, 11, 0, 99, 30, 40, 50], pos = 8,
                  opcodes = base_opcodes, world = w\<rparr>)
   \<and> getitem [3500, 9, 10, 70, 2, 3, 11, 0, 99, 30, 40, 50] 0 = Inr 3500
   \<and> d2_execute (h @ [test_mem]) c (length h) None None =
       (Inr 3500,
        h @ [test_mem, [3500, 9, 10, 70, 2, 3, 11, 0, 99, 30, 40, 50]],
        c\<lparr>d2_memory := Suc (length h), d2_pos := 8\<rparr>)"
proof -
  let ?c0 = "\<lparr>memory = test_mem, pos = 0, opcodes = base_opcodes, world = w\<rparr>"
  let ?m1 = "[1, 9, 10, 70, 2, 3, 11, 0, 99, 30, 40, 50] :: int list"
  let ?m2 = "[3500, 9, 10, 70, 2, 3, 11, 0, 99, 30, 40, 50] :: int list"
  let ?c1 = "\<lparr>memory = ?m1, pos = 4, opcodes = base_opcodes, world = w\<rparr>"
  let ?c2 = "\<lparr>memory = ?m2, pos = 8, opcodes = base_opcodes, world = w\<rparr>"
  have r: "reset \<lparr>memory = m, pos = p, opcodes = base_opcodes, world = w\<rparr> (Some test_mem) = ?c0"
    by (simp add: reset_def)
  have s1: "step ?c0 = (None, ?c1)"
    by (simp add: engine_defs test_mem_def base_opcodes_def upt_rec)
  have s2: "step ?c1 = (None, ?c2)"
    by (simp add: engine_defs base_opcodes_def upt_rec)
  have s3: "step ?c2 = (Some Halt, ?c2)"
    by (simp add: engine_defs base_opcodes_def)
  have "loop ?c0 = Some (Halt, ?c2)"
    using loop_next[OF s1] loop_next[OF s2] loop_raise[OF s3] by simp
  then have day5: "execute \<lparr>memory = m, pos = p, opcodes = base_opcodes, world = w\<rparr> test_mem =
     Some (None, ?c2)"
    by (simp add: execute_def r)
  let ?h0 = "h @ [test_mem, test_mem]"
  let ?h1 = "h @ [test_mem, ?m1]"
  let ?h2 = "h @ [test_mem, ?m2]"
  let ?k = "Suc (length h)"
  have k: "\<And>x y. (h @ [x, y]) ! ?k = y" "\<And>x y z. (h @ [x, y])[?k := z] = h @ [x, z]"
    by (simp_all add: nth_append list_update_append)
  have d1: "d2_step ?h0 ?k (c\<lparr>d2_memory := ?k, d2_pos := 0\<rparr>) =
      (None, ?h1, c\<lparr>d2_memory := ?k, d2_pos := 4\<rparr>)"
    by (simp add: d2_defs k test_mem_def)
  have d2: "d2_step ?h1 ?k (c\<lparr>d2_memory := ?k, d2_pos := 4\<rparr>) =
      (None, ?h2, c\<lparr>d2_memory := ?k, d2_pos := 8\<rparr>)"
    by (simp add: d2_defs k)
  have d3: "d2_step ?h2 ?k (c\<lparr>d2_memory := ?k, d2_pos := 8\<rparr>) =
      (Some Halt, ?h2, c\<lparr>d2_memory := ?k, d2_pos := 8\<rparr>)"
    by (simp add: d2_defs k)
  have l: "d2_loop ?h0 ?k (c\<lparr>d2_memory := ?k, d2_pos := 0\<rparr>) =
      (Halt, ?h2, c\<lparr>d2_memory := ?k, d2_pos := 8\<rparr>)"
    using d2_loop_next[OF d1] d2_loop_next[OF d2] d2_loop_raise[OF d3] by simp
  have day2: "d2_execute (h @ [test_mem]) c (length h) None None =
       (Inr 3500, ?h2, c\<lparr>d2_memory := ?k, d2_pos := 8\<rparr>)"
    using l by (simp add: d2_execute_def d2_reset_def k getitem_def nth_append)
  show ?thesis using day5 day2 by (simp add: getitem_def)
qed

section \<open>Decoding the opcode word\<close>

text \<open>
  C3.  \<open>CPU.__getitem__\<close> looks the word \<open>w\<close> up under \<open>w mod 100\<close>: it raises
  KeyError exactly when the table has no such key.  Whenever it binds an instruction,
  that is the table's entry for \<open>w mod 100\<close>, there is one mode per argument, and the
  mode of argument \<open>i\<close> is position when the digit \<open>((w div 100) div 10^i) mod 10\<close> is
  0 and immediate when it is 1; and it does bind one whenever all these digits are 0 or
  1.
\<close>

theorem opcode_decoding:
  "(CPU_getitem cpu w = Inl KeyError \<longleftrightarrow> opcodes cpu (w mod 100) = None) \<and>
   (\<forall>b. CPU_getitem cpu w = Inr b \<longrightarrow>
      opcodes cpu (w mod 100) = Some (instruction b) \<and>
      length (modes b) = arg_count (instruction b) \<and>
      (\<forall>i < arg_count (instruction b).
         w div 100 div 10 ^ i mod 10 = (case modes b ! i of position \<Rightarrow> 0 | immediate \<Rightarrow> 1))) \<and>
   (\<forall>instr. opcodes cpu (w mod 100) = Some instr \<and>
      (\<forall>i < arg_count instr. w div 100 div 10 ^ i mod 10 = 0 \<or> w div 100 div 10 ^ i mod 10 = 1) \<longrightarrow>
      (\<exists>b. CPU_getitem cpu w = Inr b))"
proof (intro conjI allI impI)
  show "CPU_getitem cpu w = Inl KeyError \<longleftrightarrow> opcodes cpu (w mod 100) = None"
    by (auto simp: CPU_getitem_def split: option.splits dest: bind_Inl)
next
  fix b
  assume "CPU_getitem cpu w = Inr b"
  then obtain instr where look: "opcodes cpu (w mod 100) = Some instr"
    and bound: "bind instr w cpu = Inr b"
    by (auto simp: CPU_getitem_def split: option.splits)
  note facts = bind_Inr_D [OF bound]
  from look facts(1) show "opcodes cpu (w mod 100) = Some (instruction b)" by simp
  from facts(1,3) show "length (modes b) = arg_count (instruction b)" by simp
  fix i
  assume "i < arg_count (instruction b)"
  with facts(1) have "i < arg_count instr" by simp
  from facts(4) [OF this]
  show "w div 100 div 10 ^ i mod 10 = (case modes b ! i of position \<Rightarrow> 0 | immediate \<Rightarrow> 1)"
    by (auto simp: ParameterMode_of_Inr)
next
  fix instr
  assume a: "opcodes cpu (w mod 100) = Some instr \<and>
      (\<forall>i < arg_count instr. w div 100 div 10 ^ i mod 10 = 0 \<or> w div 100 div 10 ^ i mod 10 = 1)"
  let ?g = "\<lambda>i. ParameterMode_of (w div 100 div 10 ^ i mod 10)"
  let ?ms = "map (\<lambda>i. if w div 100 div 10 ^ i mod 10 = 0 then position else immediate)
               [0 ..< arg_count instr]"
  have "?g ([0 ..< arg_count instr] ! i) = Inr (?ms ! i)" if "i < arg_count instr" for i
  proof -
    from a that have "w div 100 div 10 ^ i mod 10 = 0 \<or> w div 100 div 10 ^ i mod 10 = 1"
      by blast
    then have "?g i = Inr (if w div 100 div 10 ^ i mod 10 = 0 then position else immediate)"
      using ParameterMode_of_def by fastforce
    with that show ?thesis by simp
  qed
  then have "collect ?g [0 ..< arg_count instr] = Inr ?ms"
    by (simp add: collect_Inr_iff)
  then have "bind instr w cpu = Inr \<lparr>instruction = instr, modes = ?ms, offset = pos cpu + 1\<rparr>"
    by (simp add: bind_def)
  with a show "\<exists>b. CPU_getitem cpu w = Inr b"
    by (simp add: CPU_getitem_def)
qed

theorem opcode_decoding_witness:
  "CPU_getitem (cpu_on base_opcodes [1002, 4, 3, 4, 33] 0) 1002 =
     Inr \<lparr>instruction = Instruction operator_mul 2 True, modes = [position, immediate], offset = 1\<rparr>
   \<and> base_opcodes (1002 mod 100) = Some (Instruction operator_mul 2 True)
   \<and> (1002::int) div 100 div 10 ^ 0 mod 10 = 0
   \<and> (1002::int) div 100 div 10 ^ 1 mod 10 = 1
   \<and> base_opcodes (1042 mod 100) = None
   \<and> CPU_getitem (cpu_on base_opcodes [1002, 4, 3, 4, 33] 0) 1042 = Inl KeyError"
proof -
  let ?cpu = "cpu_on base_opcodes [1002, 4, 3, 4, 33] 0"
  let ?b = "\<lparr>instruction = Instruction operator_mul 2 True, modes = [position, immediate], offset = 1\<rparr>"
  have b: "CPU_getitem ?cpu 1002 = Inr ?b"
    by (simp add: cpu_on_def CPU_getitem_def bind_def base_opcodes_def ParameterMode_of_def upt_rec)
  with opcode_decoding [of ?cpu 1002] have "opcodes ?cpu (1002 mod 100) = Some (instruction ?b)"
    by blast
  then have l: "base_opcodes (1002 mod 100) = Some (Instruction operator_mul 2 True)"
    by (simp add: cpu_on_def)
  have n: "base_opcodes (1042 mod 100) = None" by (simp add: base_opcodes_def)
  then have "opcodes ?cpu (1042 mod 100) = None" by (simp add: cpu_on_def)
  with opcode_decoding [of ?cpu 1042] have k: "CPU_getitem ?cpu 1042 = Inl KeyError"
    by blast
  from b l n k show ?thesis by simp
qed


section \<open>Resolving parameters and writing results\<close>

text \<open>
  C2.  The resolver returns the word itself in immediate mode and the memory value at
  the word in position mode.  Whenever the arguments of a bound instruction are
  resolved, argument \<open>k\<close> is the word at \<open>pos + 1 + k\<close> when its mode digit is 1, and
  the memory value at that word when the digit is 0.  In every round of the loop that
  completes, the instruction is called with these arguments; when it has the output
  flag, the new memory is the old one with the converted result stored at the address
  that is the word after the arguments, whatever the digits of the opcode word; without
  the flag the memory is unchanged.
\<close>

theorem parameter_resolution:
  assumes "getitem (memory cpu) (pos cpu) = Inr w" and "opcodes cpu (w mod 100) = Some instr"
  shows "get immediate mem a = Inr a \<and> get position mem a = getitem mem a \<and>
    (\<forall>b args. CPU_getitem cpu w = Inr b \<and> args_of b (memory cpu) = Inr args \<longrightarrow>
       length args = arg_count instr \<and>
       (\<forall>k < arg_count instr. \<exists>word.
          getitem (memory cpu) (pos cpu + 1 + int k) = Inr word \<and>
          (w div 100 div 10 ^ k mod 10 = 1 \<and> args ! k = word \<or>
           w div 100 div 10 ^ k mod 10 = 0 \<and> getitem (memory cpu) word = Inr (args ! k)))) \<and>
    (\<forall>cpu'. step cpu = (None, cpu') \<longrightarrow>
       (\<exists>b args newpos result w'.
          CPU_getitem cpu w = Inr b \<and> args_of b (memory cpu) = Inr args \<and>
          call instr (pos cpu) args (world cpu) = (Inr (newpos, result), w') \<and>
          (if output' instr
           then \<exists>target v.
                  getitem (memory cpu) (pos cpu + 1 + int (arg_count instr)) = Inr target \<and>
                  py_int result = Inr v \<and>
                  setitem (memory cpu) target v = Inr (memory cpu')
           else memory cpu' = memory cpu)))"
proof (intro conjI allI impI)
  show "get immediate mem a = Inr a" by simp
  show "get position mem a = getitem mem a" by simp
next
  fix b args
  assume a: "CPU_getitem cpu w = Inr b \<and> args_of b (memory cpu) = Inr args"
  with assms(2) have b: "bind instr w cpu = Inr b"
    by (simp add: CPU_getitem_def)
  note bd = bind_Inr_D [OF b]
  from a have ar: "args_of b (memory cpu) = Inr args" by simp
  note ad = args_of_Inr_D [OF ar]
  show "length args = arg_count instr" using ad(1) bd(3) by simp
  fix k
  assume k: "k < arg_count instr"
  with bd(3) have "k < length (modes b)" by simp
  from ad(2) [OF this] obtain word where
    w1: "getitem (memory cpu) (offset b + int k) = Inr word" and
    w2: "get (modes b ! k) (memory cpu) word = Inr (args ! k)"
    by blast
  from w1 have w1': "getitem (memory cpu) (pos cpu + 1 + int k) = Inr word"
    by (simp only: bd(2))
  have "w div 100 div 10 ^ k mod 10 = 1 \<and> args ! k = word \<or>
     w div 100 div 10 ^ k mod 10 = 0 \<and> getitem (memory cpu) word = Inr (args ! k)"
    by (rule get_digit [OF bd(4) [OF k] w2])
  with w1' show "\<exists>word.
          getitem (memory cpu) (pos cpu + 1 + int k) = Inr word \<and>
          (w div 100 div 10 ^ k mod 10 = 1 \<and> args ! k = word \<or>
           w div 100 div 10 ^ k mod 10 = 0 \<and> getitem (memory cpu) word = Inr (args ! k))"
    by (intro exI conjI)
next
  fix cpu'
  assume s: "step cpu = (None, cpu')"
  obtain instr' b args result w' where
    l: "opcodes cpu (w mod 100) = Some instr'" and
    b: "bind instr' w cpu = Inr b" and
    a: "args_of b (memory cpu) = Inr args" and
    c: "call instr' (pos cpu) args (world cpu) = (Inr (pos cpu', result), w')" and
    m: "if output' instr'
     then \<exists>target v. getitem (memory cpu) (pos cpu + 1 + int (arg_count instr')) = Inr target \<and>
            py_int result = Inr v \<and> setitem (memory cpu) target v = Inr (memory cpu')
     else memory cpu' = memory cpu"
    using s assms(1) by (elim step_pos)
  from l assms(2) have ii: "instr' = instr" by simp
  have gi: "CPU_getitem cpu w = Inr b"
    using l b by (simp add: CPU_getitem_def)
  show "\<exists>b args newpos result w'.
          CPU_getitem cpu w = Inr b \<and> args_of b (memory cpu) = Inr args \<and>
          call instr (pos cpu) args (world cpu) = (Inr (newpos, result), w') \<and>
          (if output' instr
           then \<exists>target v.
                  getitem (memory cpu) (pos cpu + 1 + int (arg_count instr)) = Inr target \<and>
                  py_int result = Inr v \<and>
                  setitem (memory cpu) target v = Inr (memory cpu')
           else memory cpu' = memory cpu)"
    using gi a c [unfolded ii] m [unfolded ii] by (intro exI conjI)
qed

theorem parameter_resolution_witness:
  "step (cpu_on base_opcodes [1002, 4, 3, 4, 33] 0) =
     (None, cpu_on base_opcodes [1002, 4, 3, 4, 99] 4) \<and>
   getitem [1002, 4, 3, 4, 33] 0 = Inr 1002 \<and>
   base_opcodes (1002 mod 100) = Some (Instruction operator_mul 2 True) \<and>
   (\<exists>b args newpos result w'.
       CPU_getitem (cpu_on base_opcodes [1002, 4, 3, 4, 33] 0) 1002 = Inr b \<and>
       args_of b [1002, 4, 3, 4, 33] = Inr args \<and>
       length args = 2 \<and>
       (\<exists>word. getitem [1002, 4, 3, 4, 33] (0 + 1 + int 0) = Inr word \<and>
          getitem [1002, 4, 3, 4, 33] word = Inr (args ! 0)) \<and>
       (\<exists>word. getitem [1002, 4, 3, 4, 33] (0 + 1 + int 1) = Inr word \<and> args ! 1 = word) \<and>
       call (Instruction operator_mul 2 True) 0 args console0 = (Inr (newpos, result), w') \<and>
       (\<exists>target v.
           getitem [1002, 4, 3, 4, 33] (0 + 1 + int 2) = Inr target \<and>
           py_int result = Inr v \<and>
           setitem [1002, 4, 3, 4, 33] target v = Inr [1002, 4, 3, 4, 99]))"
proof -
  let ?c = "cpu_on base_opcodes [1002, 4, 3, 4, 33] 0"
  let ?c' = "cpu_on base_opcodes [1002, 4, 3, 4, 99] 4"
  let ?i = "Instruction operator_mul 2 True"
  have s: "step ?c = (None, ?c')"
    by (simp add: cpu_on_def engine_defs base_opcodes_def upt_rec)
  have f: "getitem (memory ?c) (pos ?c) = Inr 1002"
    by (simp add: cpu_on_def getitem_def)
  have l: "opcodes ?c (1002 mod 100) = Some ?i"
    by (simp add: cpu_on_def base_opcodes_def)
  note pr = parameter_resolution [OF f l, where mem = "[]" and a = 0]
  from pr s obtain b args newpos result w' where
    gi: "CPU_getitem ?c 1002 = Inr b" and ar: "args_of b (memory ?c) = Inr args" and
    ca: "call ?i (pos ?c) args (world ?c) = (Inr (newpos, result), w')" and
    wr: "if output' ?i
           then \<exists>target v.
                  getitem (memory ?c) (pos ?c + 1 + int (arg_count ?i)) = Inr target \<and>
                  py_int result = Inr v \<and>
                  setitem (memory ?c) target v = Inr (memory ?c')
           else memory ?c' = memory ?c"
    by blast
  from pr gi ar have len: "length args = arg_count ?i" and
    ops: "\<forall>k < arg_count ?i. \<exists>word.
          getitem (memory ?c) (pos ?c + 1 + int k) = Inr word \<and>
          ((1002::int) div 100 div 10 ^ k mod 10 = 1 \<and> args ! k = word \<or>
           (1002::int) div 100 div 10 ^ k mod 10 = 0 \<and> getitem (memory ?c) word = Inr (args ! k))"
    by blast+
  have d0: "(1002::int) div 100 div 10 ^ 0 mod 10 = 0" and d1: "(1002::int) div 100 div 10 ^ 1 mod 10 = 1"
    by simp_all
  have "(0::nat) < arg_count ?i" by simp
  with ops have "\<exists>word. getitem (memory ?c) (pos ?c + 1 + int 0) = Inr word \<and>
          ((1002::int) div 100 div 10 ^ 0 mod 10 = 1 \<and> args ! 0 = word \<or>
           (1002::int) div 100 div 10 ^ 0 mod 10 = 0 \<and> getitem (memory ?c) word = Inr (args ! 0))"
    by blast
  with d0 have o0: "\<exists>word. getitem (memory ?c) (pos ?c + 1 + int 0) = Inr word \<and>
          getitem (memory ?c) word = Inr (args ! 0)"
    by auto
  have "(1::nat) < arg_count ?i" by simp
  with ops have "\<exists>word. getitem (memory ?c) (pos ?c + 1 + int 1) = Inr word \<and>
          ((1002::int) div 100 div 10 ^ 1 mod 10 = 1 \<and> args ! 1 = word \<or>
           (1002::int) div 100 div 10 ^ 1 mod 10 = 0 \<and> getitem (memory ?c) word = Inr (args ! 1))"
    by blast
  with d1 have o1: "\<exists>word. getitem (memory ?c) (pos ?c + 1 + int 1) = Inr word \<and> args ! 1 = word"
    by auto
  from wr have wr': "\<exists>target v.
                  getitem (memory ?c) (pos ?c + 1 + int 2) = Inr target \<and>
                  py_int result = Inr v \<and>
                  setitem (memory ?c) target v = Inr (memory ?c')"
    by simp
  from len have len': "length args = 2" by simp
  have "CPU_getitem ?c 1002 = Inr b \<and>
       args_of b (memory ?c) = Inr args \<and>
       length args = 2 \<and>
       (\<exists>word. getitem (memory ?c) (pos ?c + 1 + int 0) = Inr word \<and>
          getitem (memory ?c) word = Inr (args ! 0)) \<and>
       (\<exists>word. getitem (memory ?c) (pos ?c + 1 + int 1) = Inr word \<and> args ! 1 = word) \<and>
       call ?i (pos ?c) args (world ?c) = (Inr (newpos, result), w') \<and>
       (\<exists>target v.
           getitem (memory ?c) (pos ?c + 1 + int 2) = Inr target \<and>
           py_int result = Inr v \<and>
           setitem (memory ?c) target v = Inr (memory ?c'))"
    using gi ar len' o0 o1 ca wr' by (intro conjI)
  then have "\<exists>b args newpos result w'.
       CPU_getitem ?c 1002 = Inr b \<and>
       args_of b (memory ?c) = Inr args \<and>
       length args = 2 \<and>
       (\<exists>word. getitem (memory ?c) (pos ?c + 1 + int 0) = Inr word \<and>
          getitem (memory ?c) word = Inr (args ! 0)) \<and>
       (\<exists>word. getitem (memory ?c) (pos ?c + 1 + int 1) = Inr word \<and> args ! 1 = word) \<and>
       call ?i (pos ?c) args (world ?c) = (Inr (newpos, result), w') \<and>
       (\<exists>target v.
           getitem (memory ?c) (pos ?c + 1 + int 2) = Inr target \<and>
           py_int result = Inr v \<and>
           setitem (memory ?c) target v = Inr (memory ?c'))"
    by (intro exI)
  then have E: "\<exists>b args newpos result w'.
       CPU_getitem ?c 1002 = Inr b \<and>
       args_of b [1002, 4, 3, 4, 33] = Inr args \<and>
       length args = 2 \<and>
       (\<exists>word. getitem [1002, 4, 3, 4, 33] (0 + 1 + int 0) = Inr word \<and>
          getitem [1002, 4, 3, 4, 33] word = Inr (args ! 0)) \<and>
       (\<exists>word. getitem [1002, 4, 3, 4, 33] (0 + 1 + int 1) = Inr word \<and> args ! 1 = word) \<and>
       call ?i 0 args console0 = (Inr (newpos, result), w') \<and>
       (\<exists>target v.
           getitem [1002, 4, 3, 4, 33] (0 + 1 + int 2) = Inr target \<and>
           py_int result = Inr v \<and>
           setitem [1002, 4, 3, 4, 33] target v = Inr [1002, 4, 3, 4, 99])"
    unfolding cpu_on_sel .
  from f have f': "getitem [1002, 4, 3, 4, 33] 0 = Inr 1002" unfolding cpu_on_sel .
  from l have l': "base_opcodes (1002 mod 100) = Some ?i" unfolding cpu_on_sel .
  from s f' l' E show ?thesis by (intro conjI)
qed


section \<open>The program counter\<close>

text \<open>
  C4.  In a round of the loop that completes on the word \<open>w\<close>: an instruction of the
  plain class \<open>Instruction\<close> moves the position by its width, 1 for the opcode plus
  the number of arguments plus 1 with the output flag; jump-if-true (opcode 5) with a
  zero condition and jump-if-false (opcode 6) with a nonzero condition move it by the
  width 1 + 2 + 0 as well, and only the other condition takes the target.
\<close>

theorem jump_and_advance:
  assumes "step cpu = (None, cpu')" and "getitem (memory cpu) (pos cpu) = Inr w"
  shows "(\<forall>g n out. opcodes cpu (w mod 100) = Some (Instruction g n out) \<longrightarrow>
            pos cpu' = pos cpu + 1 + int n + (if out then 1 else 0)) \<and>
         (w mod 100 = 5 \<and> opcodes cpu 5 = jump_opcodes 5 \<longrightarrow>
            (\<exists>b c t. CPU_getitem cpu w = Inr b \<and> args_of b (memory cpu) = Inr [c, t] \<and>
                     pos cpu' = (if c = 0 then pos cpu + 1 + 2 + 0 else t))) \<and>
         (w mod 100 = 6 \<and> opcodes cpu 6 = jump_opcodes 6 \<longrightarrow>
            (\<exists>b c t. CPU_getitem cpu w = Inr b \<and> args_of b (memory cpu) = Inr [c, t] \<and>
                     pos cpu' = (if c \<noteq> 0 then pos cpu + 1 + 2 + 0 else t)))"
proof -
  obtain instr b args result w' where
    l: "opcodes cpu (w mod 100) = Some instr" and
    b: "bind instr w cpu = Inr b" and
    a: "args_of b (memory cpu) = Inr args" and
    len: "length args = arg_count instr" and
    c: "call instr (pos cpu) args (world cpu) = (Inr (pos cpu', result), w')"
    using assms by (elim step_pos)
  have gi: "CPU_getitem cpu w = Inr b"
    using l b by (simp add: CPU_getitem_def)
  have plain: "pos cpu' = pos cpu + 1 + int n + (if out then 1 else 0)"
    if "opcodes cpu (w mod 100) = Some (Instruction g n out)" for g n out
    using that l c by (auto simp: Instruction_call_def Let_def split: prod.splits sum.splits)
  have j5: "\<exists>b c t. CPU_getitem cpu w = Inr b \<and> args_of b (memory cpu) = Inr [c, t] \<and>
                     pos cpu' = (if c = 0 then pos cpu + 1 + 2 + 0 else t)"
    if "w mod 100 = 5" "opcodes cpu 5 = jump_opcodes 5"
  proof -
    from that l have i: "instr = JumpInstruction py_bool 2 False"
      by (simp add: jump_opcodes_5)
    with len obtain x y where xy: "args = [x, y]"
      using length2_cases [of args] by auto
    from c i xy have "pos cpu' = (if x = 0 then pos cpu + 1 + 2 + 0 else y)"
      by (auto simp: JumpInstruction_call_def Instruction_call_def split: if_splits)
    with gi a xy show ?thesis by blast
  qed
  have j6: "\<exists>b c t. CPU_getitem cpu w = Inr b \<and> args_of b (memory cpu) = Inr [c, t] \<and>
                     pos cpu' = (if c \<noteq> 0 then pos cpu + 1 + 2 + 0 else t)"
    if "w mod 100 = 6" "opcodes cpu 6 = jump_opcodes 6"
  proof -
    from that l have i: "instr = JumpInstruction operator_not 2 False"
      by (simp add: jump_opcodes_6)
    with len obtain x y where xy: "args = [x, y]"
      using length2_cases [of args] by auto
    from c i xy have "pos cpu' = (if x \<noteq> 0 then pos cpu + 1 + 2 + 0 else y)"
      by (auto simp: JumpInstruction_call_def Instruction_call_def split: if_splits)
    with gi a xy show ?thesis by blast
  qed
  from plain j5 j6 show ?thesis by blast
qed

theorem jump_and_advance_witness:
  "step (cpu_on jump_opcodes [1105, 0, 9, 99] 0) = (None, cpu_on jump_opcodes [1105, 0, 9, 99] 3) \<and>
   (\<exists>b c t. CPU_getitem (cpu_on jump_opcodes [1105, 0, 9, 99] 0) 1105 = Inr b \<and>
      args_of b [1105, 0, 9, 99] = Inr [c, t] \<and>
      (3::int) = (if c = 0 then 0 + 1 + 2 + 0 else t)) \<and>
   step (cpu_on jump_opcodes [1106, 5, 9, 99] 0) = (None, cpu_on jump_opcodes [1106, 5, 9, 99] 3) \<and>
   (\<exists>b c t. CPU_getitem (cpu_on jump_opcodes [1106, 5, 9, 99] 0) 1106 = Inr b \<and>
      args_of b [1106, 5, 9, 99] = Inr [c, t] \<and>
      (3::int) = (if c \<noteq> 0 then 0 + 1 + 2 + 0 else t)) \<and>
   step (cpu_on jump_opcodes [1101, 2, 3, 0, 99] 0) = (None, cpu_on jump_opcodes [5, 2, 3, 0, 99] 4) \<and>
   jump_opcodes (1101 mod 100) = Some (Instruction operator_add 2 True) \<and>
   (4::int) = 0 + 1 + int 2 + (if True then 1 else 0)"
proof -
  let ?a = "cpu_on jump_opcodes [1105, 0, 9, 99] 0"
  let ?a' = "cpu_on jump_opcodes [1105, 0, 9, 99] 3"
  have sa: "step ?a = (None, ?a')"
    by (simp add: cpu_on_def engine_defs jump_opcodes_def base_opcodes_def upt_rec)
  have fa: "getitem (memory ?a) (pos ?a) = Inr 1105"
    by (simp add: cpu_on_def getitem_def)
  have "(1105::int) mod 100 = 5 \<and> opcodes ?a 5 = jump_opcodes 5"
    by (simp add: cpu_on_def)
  with jump_and_advance [OF sa fa] have
    "\<exists>b c t. CPU_getitem ?a 1105 = Inr b \<and> args_of b (memory ?a) = Inr [c, t] \<and>
        pos ?a' = (if c = 0 then pos ?a + 1 + 2 + 0 else t)"
    by blast
  then have A: "\<exists>b c t. CPU_getitem ?a 1105 = Inr b \<and> args_of b [1105, 0, 9, 99] = Inr [c, t] \<and>
        (3::int) = (if c = 0 then 0 + 1 + 2 + 0 else t)"
    unfolding cpu_on_sel .
  let ?b = "cpu_on jump_opcodes [1106, 5, 9, 99] 0"
  let ?b' = "cpu_on jump_opcodes [1106, 5, 9, 99] 3"
  have sb: "step ?b = (None, ?b')"
    by (simp add: cpu_on_def engine_defs jump_opcodes_def base_opcodes_def upt_rec)
  have fb: "getitem (memory ?b) (pos ?b) = Inr 1106"
    by (simp add: cpu_on_def getitem_def)
  have "(1106::int) mod 100 = 6 \<and> opcodes ?b 6 = jump_opcodes 6"
    by (simp add: cpu_on_def)
  with jump_and_advance [OF sb fb] have
    "\<exists>b c t. CPU_getitem ?b 1106 = Inr b \<and> args_of b (memory ?b) = Inr [c, t] \<and>
        pos ?b' = (if c \<noteq> 0 then pos ?b + 1 + 2 + 0 else t)"
    by blast
  then have B: "\<exists>b c t. CPU_getitem ?b 1106 = Inr b \<and> args_of b [1106, 5, 9, 99] = Inr [c, t] \<and>
        (3::int) = (if c \<noteq> 0 then 0 + 1 + 2 + 0 else t)"
    unfolding cpu_on_sel .
  let ?c = "cpu_on jump_opcodes [1101, 2, 3, 0, 99] 0"
  let ?c' = "cpu_on jump_opcodes [5, 2, 3, 0, 99] 4"
  have sc: "step ?c = (None, ?c')"
    by (simp add: cpu_on_def engine_defs jump_opcodes_def base_opcodes_def upt_rec)
  have fc: "getitem (memory ?c) (pos ?c) = Inr 1101"
    by (simp add: cpu_on_def getitem_def)
  have lc: "opcodes ?c (1101 mod 100) = Some (Instruction operator_add 2 True)"
    by (simp add: cpu_on_def jump_opcodes_def base_opcodes_def)
  with jump_and_advance [OF sc fc] have
    "pos ?c' = pos ?c + 1 + int 2 + (if True then 1 else 0)"
    by blast
  then have C: "(4::int) = 0 + 1 + int 2 + (if True then 1 else 0)"
    unfolding cpu_on_sel .
  from lc have lc': "jump_opcodes (1101 mod 100) = Some (Instruction operator_add 2 True)"
    by (simp add: cpu_on_def)
  from sa A sb B sc lc' C show ?thesis by blast
qed

section \<open>Comparisons\<close>

text \<open>
  C5.  A completed round on less-than (opcode 7) or equals (opcode 8), for any two
  integer arguments, stores at the address given by the third parameter the value 1
  when the comparison holds and 0 when it does not, and changes nothing else of the
  memory.  And the round does complete and store that value whenever the two arguments
  are resolved and the third parameter is an index of the memory.
\<close>

theorem comparison_result:
  assumes "getitem (memory cpu) (pos cpu) = Inr w"
    and "w mod 100 = 7 \<or> w mod 100 = 8"
    and "opcodes cpu (w mod 100) = jump_opcodes (w mod 100)"
  shows "(\<forall>cpu'. step cpu = (None, cpu') \<longrightarrow>
           (\<exists>b x y target v.
              CPU_getitem cpu w = Inr b \<and> args_of b (memory cpu) = Inr [x, y] \<and>
              getitem (memory cpu) (pos cpu + 3) = Inr target \<and>
              v = (if w mod 100 = 7 then (if x < y then 1 else 0) else (if x = y then 1 else 0)) \<and>
              (v = 0 \<or> v = 1) \<and>
              setitem (memory cpu) target v = Inr (memory cpu'))) \<and>
         (\<forall>b x y target.
            CPU_getitem cpu w = Inr b \<and> args_of b (memory cpu) = Inr [x, y] \<and>
            getitem (memory cpu) (pos cpu + 3) = Inr target \<and>
            - int (length (memory cpu)) \<le> target \<and> target < int (length (memory cpu)) \<longrightarrow>
            (\<exists>mem'.
               setitem (memory cpu) target
                 (if w mod 100 = 7 then (if x < y then 1 else 0) else (if x = y then 1 else 0)) =
                 Inr mem' \<and>
               step cpu = (None, cpu\<lparr>memory := mem', pos := pos cpu + 4\<rparr>)))"
proof (intro conjI allI impI)
  fix cpu'
  assume st: "step cpu = (None, cpu')"
  obtain instr b args result w' where
    l: "opcodes cpu (w mod 100) = Some instr" and
    b: "bind instr w cpu = Inr b" and
    a: "args_of b (memory cpu) = Inr args" and
    len: "length args = arg_count instr" and
    c: "call instr (pos cpu) args (world cpu) = (Inr (pos cpu', result), w')" and
    m: "if output' instr
     then \<exists>target v. getitem (memory cpu) (pos cpu + 1 + int (arg_count instr)) = Inr target \<and>
            py_int result = Inr v \<and> setitem (memory cpu) target v = Inr (memory cpu')
     else memory cpu' = memory cpu"
    using st assms(1) by (elim step_pos)
  have gi: "CPU_getitem cpu w = Inr b"
    using l b by (simp add: CPU_getitem_def)
  from assms(2,3) l have i: "instr = (if w mod 100 = 7 then Instruction operator_lt 2 True
                                      else Instruction operator_eq 2 True)"
    by (auto simp: jump_opcodes_7 jump_opcodes_8)
  with len obtain x y where xy: "args = [x, y]"
    using length2_cases [of args] by (auto split: if_splits)
  from c i xy have r: "result = (if w mod 100 = 7 then PyBool (x < y) else PyBool (x = y))"
    by (auto simp: Instruction_call_def split: if_splits)
  from m i have "\<exists>target v. getitem (memory cpu) (pos cpu + 3) = Inr target \<and>
            py_int result = Inr v \<and> setitem (memory cpu) target v = Inr (memory cpu')"
    by (simp add: add.assoc split: if_splits)
  then obtain target v where
    t: "getitem (memory cpu) (pos cpu + 3) = Inr target" and
    v: "py_int result = Inr v" and
    s: "setitem (memory cpu) target v = Inr (memory cpu')"
    by blast
  from v r have v': "v = (if w mod 100 = 7 then (if x < y then 1 else 0) else (if x = y then 1 else 0))"
    by (auto split: if_splits)
  then have "v = 0 \<or> v = 1" by (auto split: if_splits)
  with gi a xy t v' s show "\<exists>b x y target v.
              CPU_getitem cpu w = Inr b \<and> args_of b (memory cpu) = Inr [x, y] \<and>
              getitem (memory cpu) (pos cpu + 3) = Inr target \<and>
              v = (if w mod 100 = 7 then (if x < y then 1 else 0) else (if x = y then 1 else 0)) \<and>
              (v = 0 \<or> v = 1) \<and>
              setitem (memory cpu) target v = Inr (memory cpu')"
    by blast
next
  fix b and x y target :: int
  let ?v = "if w mod 100 = 7 then (if x < y then 1 else 0) else (if x = y then 1 else (0::int))"
  assume a: "CPU_getitem cpu w = Inr b \<and> args_of b (memory cpu) = Inr [x, y] \<and>
            getitem (memory cpu) (pos cpu + 3) = Inr target \<and>
            - int (length (memory cpu)) \<le> target \<and> target < int (length (memory cpu))"
  then obtain instr where l: "opcodes cpu (w mod 100) = Some instr" and bd: "bind instr w cpu = Inr b"
    by (auto simp: CPU_getitem_def split: option.splits)
  from assms(2,3) l have i: "instr = (if w mod 100 = 7 then Instruction operator_lt 2 True
                                      else Instruction operator_eq 2 True)"
    by (auto simp: jump_opcodes_7 jump_opcodes_8)
  note facts = bind_Inr_D(1,2) [OF bd]
  from a setitem_in [of "memory cpu" target ?v] obtain mem' where
    si: "setitem (memory cpu) target ?v = Inr mem'"
    by blast
  have t: "getitem (memory cpu) (offset b + 2) = Inr target"
    using a facts(2) by (simp add: add.assoc)
  have "BoundInstruction_call b cpu = (Inr (pos cpu + 4), cpu\<lparr>memory := mem'\<rparr>)"
  proof (cases "w mod 100 = 7")
    case True
    with i facts(1) have ib: "instruction b = Instruction operator_lt 2 True" by simp
    from si True have "setitem (memory cpu) target (if x < y then 1 else 0) = Inr mem'" by simp
    with a t ib show ?thesis
      by (simp add: BoundInstruction_call_def Instruction_call_def)
  next
    case False
    with i facts(1) have ib: "instruction b = Instruction operator_eq 2 True" by simp
    from si False have "setitem (memory cpu) target (if x = y then 1 else 0) = Inr mem'" by simp
    with a t ib show ?thesis
      by (simp add: BoundInstruction_call_def Instruction_call_def)
  qed
  with assms(1) a have "step cpu = (None, cpu\<lparr>memory := mem', pos := pos cpu + 4\<rparr>)"
    by (simp add: step_bound)
  with si show "\<exists>mem'. setitem (memory cpu) target ?v = Inr mem' \<and>
               step cpu = (None, cpu\<lparr>memory := mem', pos := pos cpu + 4\<rparr>)"
    by blast
qed


theorem comparison_result_witness:
  "step (cpu_on jump_opcodes [1107, -1, 8, 0, 99] 0) =
     (None, cpu_on jump_opcodes [1, -1, 8, 0, 99] 4) \<and>
   step (cpu_on jump_opcodes [1107, 8, -1, 0, 99] 0) =
     (None, cpu_on jump_opcodes [0, 8, -1, 0, 99] 4) \<and>
   step (cpu_on jump_opcodes [1108, -1, 8, 0, 99] 0) =
     (None, cpu_on jump_opcodes [0, -1, 8, 0, 99] 4) \<and>
   step (cpu_on jump_opcodes [1108, 0, 0, 0, 99] 0) =
     (None, cpu_on jump_opcodes [1, 0, 0, 0, 99] 4) \<and>
   (\<exists>b x y target v.
       CPU_getitem (cpu_on jump_opcodes [1108, -1, 8, 0, 99] 0) 1108 = Inr b \<and>
       args_of b [1108, -1, 8, 0, 99] = Inr [x, y] \<and>
       getitem [1108, -1, 8, 0, 99] (0 + 3) = Inr target \<and>
       (v = 0 \<or> v = 1) \<and>
       setitem [1108, -1, 8, 0, 99] target v = Inr [0, -1, 8, 0, 99])"
proof -
  have lt1: "step (cpu_on jump_opcodes [1107, -1, 8, 0, 99] 0) = (None, cpu_on jump_opcodes [1, -1, 8, 0, 99] 4)"
  proof -
    let ?c = "cpu_on jump_opcodes [1107, -1, 8, 0, 99] 0"
    let ?b = "\<lparr>instruction = the (jump_opcodes (1107 mod 100)), modes = [immediate, immediate], offset = 1\<rparr>"
    have f: "getitem (memory ?c) (pos ?c) = Inr 1107"
      by (simp add: cpu_on_def getitem_def)
    have k: "(1107::int) mod 100 = 7 \<or> (1107::int) mod 100 = 8" by simp
    have l: "opcodes ?c (1107 mod 100) = jump_opcodes (1107 mod 100)"
      by (simp add: cpu_on_def)
    have gi: "CPU_getitem ?c 1107 = Inr ?b"
      by (simp add: cpu_on_def CPU_getitem_def bind_def jump_opcodes_def base_opcodes_def
          ParameterMode_of_def upt_rec)
    have ar: "args_of ?b (memory ?c) = Inr [-1, 8]"
      by (simp add: cpu_on_def args_of_def get_arg_def getitem_def)
    have tg: "getitem (memory ?c) (pos ?c + 3) = Inr 0"
      by (simp add: cpu_on_def getitem_def)
    have rg: "- int (length (memory ?c)) \<le> 0 \<and> 0 < int (length (memory ?c))"
      by (simp add: cpu_on_def)
    from comparison_result [OF f k l] gi ar tg rg obtain mem' where
      si: "setitem (memory ?c) 0
             (if (1107::int) mod 100 = 7 then (if (-1::int) < 8 then 1 else 0)
              else (if (-1::int) = 8 then 1 else 0)) = Inr mem'" and
      st: "step ?c = (None, ?c\<lparr>memory := mem', pos := pos ?c + 4\<rparr>)"
      by blast
    from si have "mem' = [1, -1, 8, 0, 99]"
      by (simp add: cpu_on_def setitem_def)
    with st show ?thesis by (simp add: cpu_on_def)
  qed
  have lt0: "step (cpu_on jump_opcodes [1107, 8, -1, 0, 99] 0) = (None, cpu_on jump_opcodes [0, 8, -1, 0, 99] 4)"
  proof -
    let ?c = "cpu_on jump_opcodes [1107, 8, -1, 0, 99] 0"
    let ?b = "\<lparr>instruction = the (jump_opcodes (1107 mod 100)), modes = [immediate, immediate], offset = 1\<rparr>"
    have f: "getitem (memory ?c) (pos ?c) = Inr 1107"
      by (simp add: cpu_on_def getitem_def)
    have k: "(1107::int) mod 100 = 7 \<or> (1107::int) mod 100 = 8" by simp
    have l: "opcodes ?c (1107 mod 100) = jump_opcodes (1107 mod 100)"
      by (simp add: cpu_on_def)
    have gi: "CPU_getitem ?c 1107 = Inr ?b"
      by (simp add: cpu_on_def CPU_getitem_def bind_def jump_opcodes_def base_opcodes_def
          ParameterMode_of_def upt_rec)
    have ar: "args_of ?b (memory ?c) = Inr [8, -1]"
      by (simp add: cpu_on_def args_of_def get_arg_def getitem_def)
    have tg: "getitem (memory ?c) (pos ?c + 3) = Inr 0"
      by (simp add: cpu_on_def getitem_def)
    have rg: "- int (length (memory ?c)) \<le> 0 \<and> 0 < int (length (memory ?c))"
      by (simp add: cpu_on_def)
    from comparison_result [OF f k l] gi ar tg rg obtain mem' where
      si: "setitem (memory ?c) 0
             (if (1107::int) mod 100 = 7 then (if (8::int) < -1 then 1 else 0)
              else (if (8::int) = -1 then 1 else 0)) = Inr mem'" and
      st: "step ?c = (None, ?c\<lparr>memory := mem', pos := pos ?c + 4\<rparr>)"
      by blast
    from si have "mem' = [0, 8, -1, 0, 99]"
      by (simp add: cpu_on_def setitem_def)
    with st show ?thesis by (simp add: cpu_on_def)
  qed
  have eq0: "step (cpu_on jump_opcodes [1108, -1, 8, 0, 99] 0) = (None, cpu_on jump_opcodes [0, -1, 8, 0, 99] 4)"
  proof -
    let ?c = "cpu_on jump_opcodes [1108, -1, 8, 0, 99] 0"
    let ?b = "\<lparr>instruction = the (jump_opcodes (1108 mod 100)), modes = [immediate, immediate], offset = 1\<rparr>"
    have f: "getitem (memory ?c) (pos ?c) = Inr 1108"
      by (simp add: cpu_on_def getitem_def)
    have k: "(1108::int) mod 100 = 7 \<or> (1108::int) mod 100 = 8" by simp
    have l: "opcodes ?c (1108 mod 100) = jump_opcodes (1108 mod 100)"
      by (simp add: cpu_on_def)
    have gi: "CPU_getitem ?c 1108 = Inr ?b"
      by (simp add: cpu_on_def CPU_getitem_def bind_def jump_opcodes_def base_opcodes_def
          ParameterMode_of_def upt_rec)
    have ar: "args_of ?b (memory ?c) = Inr [-1, 8]"
      by (simp add: cpu_on_def args_of_def get_arg_def getitem_def)
    have tg: "getitem (memory ?c) (pos ?c + 3) = Inr 0"
      by (simp add: cpu_on_def getitem_def)
    have rg: "- int (length (memory ?c)) \<le> 0 \<and> 0 < int (length (memory ?c))"
      by (simp add: cpu_on_def)
    from comparison_result [OF f k l] gi ar tg rg obtain mem' where
      si: "setitem (memory ?c) 0
             (if (1108::int) mod 100 = 7 then (if (-1::int) < 8 then 1 else 0)
              else (if (-1::int) = 8 then 1 else 0)) = Inr mem'" and
      st: "step ?c = (None, ?c\<lparr>memory := mem', pos := pos ?c + 4\<rparr>)"
      by blast
    from si have "mem' = [0, -1, 8, 0, 99]"
      by (simp add: cpu_on_def setitem_def)
    with st show ?thesis by (simp add: cpu_on_def)
  qed
  have eq1: "step (cpu_on jump_opcodes [1108, 0, 0, 0, 99] 0) = (None, cpu_on jump_opcodes [1, 0, 0, 0, 99] 4)"
  proof -
    let ?c = "cpu_on jump_opcodes [1108, 0, 0, 0, 99] 0"
    let ?b = "\<lparr>instruction = the (jump_opcodes (1108 mod 100)), modes = [immediate, immediate], offset = 1\<rparr>"
    have f: "getitem (memory ?c) (pos ?c) = Inr 1108"
      by (simp add: cpu_on_def getitem_def)
    have k: "(1108::int) mod 100 = 7 \<or> (1108::int) mod 100 = 8" by simp
    have l: "opcodes ?c (1108 mod 100) = jump_opcodes (1108 mod 100)"
      by (simp add: cpu_on_def)
    have gi: "CPU_getitem ?c 1108 = Inr ?b"
      by (simp add: cpu_on_def CPU_getitem_def bind_def jump_opcodes_def base_opcodes_def
          ParameterMode_of_def upt_rec)
    have ar: "args_of ?b (memory ?c) = Inr [0, 0]"
      by (simp add: cpu_on_def args_of_def get_arg_def getitem_def)
    have tg: "getitem (memory ?c) (pos ?c + 3) = Inr 0"
      by (simp add: cpu_on_def getitem_def)
    have rg: "- int (length (memory ?c)) \<le> 0 \<and> 0 < int (length (memory ?c))"
      by (simp add: cpu_on_def)
    from comparison_result [OF f k l] gi ar tg rg obtain mem' where
      si: "setitem (memory ?c) 0
             (if (1108::int) mod 100 = 7 then (if (0::int) < 0 then 1 else 0)
              else (if (0::int) = 0 then 1 else 0)) = Inr mem'" and
      st: "step ?c = (None, ?c\<lparr>memory := mem', pos := pos ?c + 4\<rparr>)"
      by blast
    from si have "mem' = [1, 0, 0, 0, 99]"
      by (simp add: cpu_on_def setitem_def)
    with st show ?thesis by (simp add: cpu_on_def)
  qed
  let ?c = "cpu_on jump_opcodes [1108, -1, 8, 0, 99] 0"
  let ?c' = "cpu_on jump_opcodes [0, -1, 8, 0, 99] 4"
  have f: "getitem (memory ?c) (pos ?c) = Inr 1108"
    by (simp add: cpu_on_def getitem_def)
  have k: "(1108::int) mod 100 = 7 \<or> (1108::int) mod 100 = 8" by simp
  have l: "opcodes ?c (1108 mod 100) = jump_opcodes (1108 mod 100)"
    by (simp add: cpu_on_def)
  from comparison_result [OF f k l] eq0 obtain b x y target v where
    "CPU_getitem ?c 1108 = Inr b" "args_of b (memory ?c) = Inr [x, y]"
    "getitem (memory ?c) (pos ?c + 3) = Inr target" "v = 0 \<or> v = 1"
    "setitem (memory ?c) target v = Inr (memory ?c')"
    by blast
  then have "CPU_getitem ?c 1108 = Inr b \<and>
       args_of b [1108, -1, 8, 0, 99] = Inr [x, y] \<and>
       getitem [1108, -1, 8, 0, 99] (0 + 3) = Inr target \<and>
       (v = 0 \<or> v = 1) \<and>
       setitem [1108, -1, 8, 0, 99] target v = Inr [0, -1, 8, 0, 99]"
    unfolding cpu_on_sel by blast
  then have "\<exists>b x y target v.
       CPU_getitem ?c 1108 = Inr b \<and>
       args_of b [1108, -1, 8, 0, 99] = Inr [x, y] \<and>
       getitem [1108, -1, 8, 0, 99] (0 + 3) = Inr target \<and>
       (v = 0 \<or> v = 1) \<and>
       setitem [1108, -1, 8, 0, 99] target v = Inr [0, -1, 8, 0, 99]"
    by (intro exI)
  with lt1 lt0 eq0 eq1 show ?thesis by (intro conjI)
qed


section \<open>Jumps and memory\<close>

text \<open>
  C10.  The jump instructions (opcodes 5 and 6) are defined without the output flag,
  and a round of the loop on one of them, whether it completes or raises, leaves the
  memory as it was: the CPU after the round is the CPU before it with at most another
  position.
\<close>

theorem jump_frame:
  assumes "getitem (memory cpu) (pos cpu) = Inr w"
    and "w mod 100 = 5 \<or> w mod 100 = 6"
    and "opcodes cpu (w mod 100) = jump_opcodes (w mod 100)"
  shows "(\<exists>g n. jump_opcodes (w mod 100) = Some (JumpInstruction g n False)) \<and>
         memory (snd (step cpu)) = memory cpu \<and>
         (\<exists>p. snd (step cpu) = cpu\<lparr>pos := p\<rparr>)"
proof -
  from assms(2) obtain g where
    j: "jump_opcodes (w mod 100) = Some (JumpInstruction g 2 False)" and
    g: "g = py_bool \<or> g = operator_not"
    by (auto simp: jump_opcodes_5 jump_opcodes_6)
  let ?i = "JumpInstruction g 2 False"
  from assms(3) j have l: "opcodes cpu (w mod 100) = Some ?i" by simp
  have w: "snd (call ?i p args wd) = wd" for p args wd
    using jump_call_world [OF g, of 2 False p args wd] by (cases "call ?i p args wd") simp
  from step_frame [OF assms(1) l] have "\<exists>p. snd (step cpu) = cpu\<lparr>pos := p\<rparr>"
    by (auto simp: w simp del: call.simps)
  then obtain p where p: "snd (step cpu) = cpu\<lparr>pos := p\<rparr>" ..
  then have "memory (snd (step cpu)) = memory cpu" by simp
  with j p show ?thesis by blast
qed

theorem jump_frame_witness:
  "getitem [1105, 7, 0, 99] 0 = Inr 1105 \<and>
   jump_opcodes (1105 mod 100) = Some (JumpInstruction py_bool 2 False) \<and>
   step (cpu_on jump_opcodes [1105, 7, 0, 99] 0) = (None, cpu_on jump_opcodes [1105, 7, 0, 99] 0) \<and>
   memory (snd (step (cpu_on jump_opcodes [1105, 7, 0, 99] 0))) = [1105, 7, 0, 99]"
proof -
  let ?c = "cpu_on jump_opcodes [1105, 7, 0, 99] 0"
  have f: "getitem (memory ?c) (pos ?c) = Inr 1105"
    by (simp add: cpu_on_def getitem_def)
  have k: "(1105::int) mod 100 = 5 \<or> (1105::int) mod 100 = 6" by simp
  have l: "opcodes ?c (1105 mod 100) = jump_opcodes (1105 mod 100)"
    by (simp add: cpu_on_def)
  have s: "step ?c = (None, ?c)"
    by (simp add: cpu_on_def engine_defs jump_opcodes_def base_opcodes_def upt_rec)
  from jump_frame [OF f k l] have "memory (snd (step ?c)) = memory ?c" by blast
  then have "memory (snd (step ?c)) = [1105, 7, 0, 99]" by (simp add: cpu_on_def)
  moreover have "jump_opcodes (1105 mod 100) = Some (JumpInstruction py_bool 2 False)"
    by (simp add: jump_opcodes_5)
  moreover have "getitem [1105, 7, 0, 99] 0 = Inr 1105" by (simp add: getitem_def)
  ultimately show ?thesis using s by blast
qed

section \<open>Errors and the halt\<close>

text \<open>
  C6.  When the loop, started by \<open>execute\<close>, comes to a word whose base opcode
  \<open>w mod 100\<close> is no key of the table, the round raises KeyError, nothing catches it,
  and \<open>execute\<close> ends with this exception for its caller.  \<open>execute\<close> returns
  normally exactly when the loop ended with \<open>Halt\<close>; and on each table of the
  notebook this happens only in a round that fetched a word with base opcode 99.
\<close>

theorem unknown_opcode:
  "(reaches (reset cpu (Some mem)) c \<and> getitem (memory c) (pos c) = Inr w \<and>
      opcodes c (w mod 100) = None \<longrightarrow>
        step c = (Some KeyError, c) \<and> execute cpu mem = Some (Some KeyError, c)) \<and>
   (execute cpu mem = Some (None, c') \<longleftrightarrow> loop (reset cpu (Some mem)) = Some (Halt, c')) \<and>
   ((opcodes cpu = base_opcodes \<or> opcodes cpu = part1_opcodes \<or> opcodes cpu = jump_opcodes \<or>
     opcodes cpu = part2_opcodes \<or> opcodes cpu = test_opcodes inp) \<and>
    execute cpu mem = Some (None, c') \<longrightarrow>
      (\<exists>w. reaches (reset cpu (Some mem)) c' \<and> getitem (memory c') (pos c') = Inr w \<and>
           w mod 100 = 99 \<and> step c' = (Some Halt, c')))"
proof (intro conjI impI)
  assume a: "reaches (reset cpu (Some mem)) c \<and> getitem (memory c) (pos c) = Inr w \<and>
      opcodes c (w mod 100) = None"
  then show s: "step c = (Some KeyError, c)"
    by (simp add: step_def CPU_getitem_def)
  from a execute_raise [OF _ s, of cpu mem] show "execute cpu mem = Some (Some KeyError, c)"
    by simp
next
  show "execute cpu mem = Some (None, c') \<longleftrightarrow> loop (reset cpu (Some mem)) = Some (Halt, c')"
    by (auto simp: execute_def split: option.splits if_splits)
next
  assume a: "(opcodes cpu = base_opcodes \<or> opcodes cpu = part1_opcodes \<or> opcodes cpu = jump_opcodes \<or>
     opcodes cpu = part2_opcodes \<or> opcodes cpu = test_opcodes inp) \<and>
    execute cpu mem = Some (None, c')"
  then have "loop (reset cpu (Some mem)) = Some (Halt, c')"
    by (auto simp: execute_def split: option.splits if_splits)
  from loop_Some_D [OF this] obtain c where
    r: "reaches (reset cpu (Some mem)) c" and s: "step c = (Some Halt, c')"
    by blast
  from reaches_opcodes [OF r] have o: "opcodes c = opcodes cpu"
    by (simp add: reset_def)
  from step_Halt [OF s] obtain w instr args w' where
    f: "getitem (memory c) (pos c) = Inr w" and
    l: "opcodes c (w mod 100) = Some instr" and
    h: "f instr args (world c) = (Inl Halt, w')" and c': "c' = c\<lparr>world := w'\<rparr>"
    by blast
  from a o have "opcodes c = base_opcodes \<or> opcodes c = part1_opcodes \<or> opcodes c = jump_opcodes \<or>
     opcodes c = part2_opcodes \<or> opcodes c = test_opcodes inp"
    by simp
  from table_Halt [OF this l h] have k: "w mod 100 = 99" and "w' = world c" by simp_all
  with c' have "c' = c" by simp
  with r s f k show "\<exists>w. reaches (reset cpu (Some mem)) c' \<and> getitem (memory c') (pos c') = Inr w \<and>
           w mod 100 = 99 \<and> step c' = (Some Halt, c')"
    by blast
qed

theorem unknown_opcode_witness:
  "execute (cpu_on base_opcodes [] 0) [1, 0, 0, 0, 42] =
     Some (Some KeyError, cpu_on base_opcodes [2, 0, 0, 0, 42] 4) \<and>
   step (cpu_on base_opcodes [2, 0, 0, 0, 42] 4) =
     (Some KeyError, cpu_on base_opcodes [2, 0, 0, 0, 42] 4) \<and>
   execute (cpu_on base_opcodes [] 0) [99] = Some (None, cpu_on base_opcodes [99] 0) \<and>
   (\<exists>w. getitem [99] 0 = Inr w \<and> w mod 100 = 99)"
proof -
  let ?c0 = "cpu_on base_opcodes [] 0"
  let ?c1 = "cpu_on base_opcodes [1, 0, 0, 0, 42] 0"
  let ?c2 = "cpu_on base_opcodes [2, 0, 0, 0, 42] 4"
  have r1: "reset ?c0 (Some [1, 0, 0, 0, 42]) = ?c1" by (simp add: reset_def cpu_on_def)
  have s1: "step ?c1 = (None, ?c2)"
    by (simp add: cpu_on_def engine_defs base_opcodes_def upt_rec)
  have "reaches (reset ?c0 (Some [1, 0, 0, 0, 42])) ?c2"
    unfolding r1 by (rule reaches.round [OF s1 reaches.here])
  moreover have "getitem (memory ?c2) (pos ?c2) = Inr 42"
    by (simp add: cpu_on_def getitem_def)
  moreover have "opcodes ?c2 (42 mod 100) = None"
    by (simp add: cpu_on_def base_opcodes_def)
  ultimately have A: "step ?c2 = (Some KeyError, ?c2) \<and>
      execute ?c0 [1, 0, 0, 0, 42] = Some (Some KeyError, ?c2)"
    using unknown_opcode [of ?c0 "[1, 0, 0, 0, 42]" ?c2 42] by blast
  let ?h = "cpu_on base_opcodes [99] 0"
  have r2: "reset ?c0 (Some [99]) = ?h" by (simp add: reset_def cpu_on_def)
  have s2: "step ?h = (Some Halt, ?h)"
    by (simp add: cpu_on_def engine_defs base_opcodes_def)
  have "loop (reset ?c0 (Some [99])) = Some (Halt, ?h)"
    unfolding r2 by (rule loop_raise [OF s2])
  with unknown_opcode [of ?c0 "[99]" _ _ ?h] have e: "execute ?c0 [99] = Some (None, ?h)"
    by blast
  have "opcodes ?c0 = base_opcodes" by (simp add: cpu_on_def)
  with e unknown_opcode [of ?c0 "[99]" _ _ ?h] have
    "\<exists>w. getitem (memory ?h) (pos ?h) = Inr w \<and> w mod 100 = 99"
    by blast
  then have "\<exists>w. getitem [99] 0 = Inr w \<and> w mod 100 = 99"
    unfolding cpu_on_sel .
  with A e show ?thesis by blast
qed

text \<open>
  C8.  When a mode digit that \<open>bind\<close> decodes, one of the digits \<open>i\<close> below the
  argument count of the instruction found, is neither 0 nor 1, the round raises
  ValueError before anything is read or written, the loop ends with it, and
  \<open>execute\<close> passes it to its caller.
\<close>

theorem malformed_mode:
  assumes "getitem (memory c) (pos c) = Inr w" and "opcodes c (w mod 100) = Some instr"
    and "i < arg_count instr"
    and "w div 100 div 10 ^ i mod 10 \<noteq> 0" and "w div 100 div 10 ^ i mod 10 \<noteq> 1"
  shows "step c = (Some ValueError, c) \<and> loop c = Some (ValueError, c) \<and>
         (reaches (reset cpu (Some mem)) c \<longrightarrow> execute cpu mem = Some (Some ValueError, c))"
proof -
  let ?g = "\<lambda>i. ParameterMode_of (w div 100 div 10 ^ i mod 10)"
  have bad: "?g i = Inl ValueError"
    using assms(4,5) ParameterMode_of_def by presburger
  have only: "e = ValueError" if "?g x = Inl e" for x e
    using that ParameterMode_of_def by (metis Inl_Inr_False sum.inject(1))
  have "collect ?g [0 ..< arg_count instr] = Inl ValueError"
  proof (rule collect_Inl_I [where i = i])
    show "i < length [0 ..< arg_count instr]" using assms(3) by simp
    show "?g ([0 ..< arg_count instr] ! i) = Inl ValueError"
      using bad assms(3) by (simp only: nth_upt_0)
    show "\<And>x e'. x \<in> set [0 ..< arg_count instr] \<Longrightarrow> ?g x = Inl e' \<Longrightarrow> e' = ValueError"
      using only by blast
  qed
  then have "bind instr w c = Inl ValueError"
    by (simp add: bind_def)
  with assms(1,2) have s: "step c = (Some ValueError, c)"
    by (simp add: step_def CPU_getitem_def)
  from loop_raise [OF s] have l: "loop c = Some (ValueError, c)" .
  have "execute cpu mem = Some (Some ValueError, c)" if "reaches (reset cpu (Some mem)) c"
    using execute_raise [OF that s] by simp
  with s l show ?thesis by blast
qed

theorem malformed_mode_witness:
  "getitem [1, 0, 0, 0, 201, 0, 0, 0] 4 = Inr 201 \<and>
   base_opcodes (201 mod 100) = Some (Instruction operator_add 2 True) \<and>
   (201::int) div 100 div 10 ^ 0 mod 10 = 2 \<and>
   step (cpu_on base_opcodes [2, 0, 0, 0, 201, 0, 0, 0] 4) =
     (Some ValueError, cpu_on base_opcodes [2, 0, 0, 0, 201, 0, 0, 0] 4) \<and>
   execute (cpu_on base_opcodes [] 0) [1, 0, 0, 0, 201, 0, 0, 0] =
     Some (Some ValueError, cpu_on base_opcodes [2, 0, 0, 0, 201, 0, 0, 0] 4)"
proof -
  let ?c0 = "cpu_on base_opcodes [] 0"
  let ?m = "[1, 0, 0, 0, 201, 0, 0, 0] :: int list"
  let ?c1 = "cpu_on base_opcodes ?m 0"
  let ?c2 = "cpu_on base_opcodes [2, 0, 0, 0, 201, 0, 0, 0] 4"
  have r1: "reset ?c0 (Some ?m) = ?c1" by (simp add: reset_def cpu_on_def)
  have s1: "step ?c1 = (None, ?c2)"
    by (simp add: cpu_on_def engine_defs base_opcodes_def upt_rec)
  have r: "reaches (reset ?c0 (Some ?m)) ?c2"
    unfolding r1 by (rule reaches.round [OF s1 reaches.here])
  have f: "getitem (memory ?c2) (pos ?c2) = Inr 201"
    by (simp add: cpu_on_def getitem_def)
  have l: "opcodes ?c2 (201 mod 100) = Some (Instruction operator_add 2 True)"
    by (simp add: cpu_on_def base_opcodes_def)
  have i: "0 < arg_count (Instruction operator_add 2 True)" by simp
  have d: "(201::int) div 100 div 10 ^ 0 mod 10 = 2" by simp
  have d0: "(201::int) div 100 div 10 ^ 0 mod 10 \<noteq> 0" and d1: "(201::int) div 100 div 10 ^ 0 mod 10 \<noteq> 1"
    by simp_all
  from malformed_mode [OF f l i d0 d1, of ?c0 ?m] r have
    "step ?c2 = (Some ValueError, ?c2) \<and> execute ?c0 ?m = Some (Some ValueError, ?c2)"
    by blast
  moreover have "getitem ?m 4 = Inr 201" by (simp add: getitem_def)
  moreover have "base_opcodes (201 mod 100) = Some (Instruction operator_add 2 True)"
    by (simp add: base_opcodes_def)
  ultimately show ?thesis using d by blast
qed

section \<open>Addresses outside the memory\<close>

text \<open>
  C7, as the code has it.  Memory is a Python list, so an index from \<open>-n\<close> to
  \<open>-1\<close>, with \<open>n\<close> the length of the memory, is no error: it counts from the end.
  The two programs below run to their halt although the first reads its operands at
  index -3 and writes at index -2, and the second fetches its last opcode at position
  -1.
\<close>

theorem negative_index_counterexample:
  "\<not> (0 \<le> (-3::int) \<and> (-3::int) < int (length [1, -3, -3, -2, 99, 0, 0 :: int])) \<and>
   \<not> (0 \<le> (-2::int) \<and> (-2::int) < int (length [1, -3, -3, -2, 99, 0, 0 :: int])) \<and>
   step (cpu_on base_opcodes [1, -3, -3, -2, 99, 0, 0] 0) =
     (None, cpu_on base_opcodes [1, -3, -3, -2, 99, 198, 0] 4) \<and>
   execute (cpu_on base_opcodes [] 0) [1, -3, -3, -2, 99, 0, 0] =
     Some (None, cpu_on base_opcodes [1, -3, -3, -2, 99, 198, 0] 4) \<and>
   \<not> (0 \<le> (-1::int) \<and> (-1::int) < int (length [1105, 1, -1, 99 :: int])) \<and>
   step (cpu_on jump_opcodes [1105, 1, -1, 99] 0) =
     (None, cpu_on jump_opcodes [1105, 1, -1, 99] (-1)) \<and>
   step (cpu_on jump_opcodes [1105, 1, -1, 99] (-1)) =
     (Some Halt, cpu_on jump_opcodes [1105, 1, -1, 99] (-1)) \<and>
   execute (cpu_on jump_opcodes [] 0) [1105, 1, -1, 99] =
     Some (None, cpu_on jump_opcodes [1105, 1, -1, 99] (-1))"
proof -
  let ?a0 = "cpu_on base_opcodes [1, -3, -3, -2, 99, 0, 0] 0"
  let ?a1 = "cpu_on base_opcodes [1, -3, -3, -2, 99, 198, 0] 4"
  have ra: "reset (cpu_on base_opcodes [] 0) (Some [1, -3, -3, -2, 99, 0, 0]) = ?a0"
    by (simp add: reset_def cpu_on_def)
  have a1: "step ?a0 = (None, ?a1)"
    by (simp add: cpu_on_def engine_defs base_opcodes_def upt_rec)
  have a2: "step ?a1 = (Some Halt, ?a1)"
    by (simp add: cpu_on_def engine_defs base_opcodes_def)
  have ea: "execute (cpu_on base_opcodes [] 0) [1, -3, -3, -2, 99, 0, 0] = Some (None, ?a1)"
    using loop_next [OF a1] loop_raise [OF a2] by (simp add: execute_def ra)
  let ?b0 = "cpu_on jump_opcodes [1105, 1, -1, 99] 0"
  let ?b1 = "cpu_on jump_opcodes [1105, 1, -1, 99] (-1)"
  have rb: "reset (cpu_on jump_opcodes [] 0) (Some [1105, 1, -1, 99]) = ?b0"
    by (simp add: reset_def cpu_on_def)
  have b1: "step ?b0 = (None, ?b1)"
    by (simp add: cpu_on_def engine_defs jump_opcodes_def base_opcodes_def upt_rec)
  have b2: "step ?b1 = (Some Halt, ?b1)"
    by (simp add: cpu_on_def engine_defs jump_opcodes_def base_opcodes_def)
  have eb: "execute (cpu_on jump_opcodes [] 0) [1105, 1, -1, 99] = Some (None, ?b1)"
    using loop_next [OF b1] loop_raise [OF b2] by (simp add: execute_def rb)
  from a1 ea b1 b2 eb show ?thesis by simp
qed

text \<open>
  C7, amended.  An index \<open>i\<close> below \<open>-n\<close> or from \<open>n\<close> on raises IndexError in each
  kind of access: the fetch at position \<open>i\<close>; the read of a position-mode operand
  whose parameter word is \<open>i\<close>; the store at the target \<open>i\<close>, once the arguments are
  resolved, the instruction body has returned and its result is converted.  The round
  leaves the memory as it was, the loop ends with the exception and \<open>execute\<close> passes
  it to its caller.
\<close>

theorem index_out_of_range:
  assumes "i < - int (length (memory c)) \<or> int (length (memory c)) \<le> i"
  shows "(pos c = i \<longrightarrow> step c = (Some IndexError, c)) \<and>
    (\<forall>w b k. getitem (memory c) (pos c) = Inr w \<and> CPU_getitem c w = Inr b \<and>
        k < length (modes b) \<and> modes b ! k = position \<and>
        getitem (memory c) (pos c + 1 + int k) = Inr i \<longrightarrow>
          step c = (Some IndexError, c)) \<and>
    (\<forall>w b args newpos result w' v.
        getitem (memory c) (pos c) = Inr w \<and> CPU_getitem c w = Inr b \<and>
        output' (instruction b) \<and> args_of b (memory c) = Inr args \<and>
        call (instruction b) (pos c) args (world c) = (Inr (newpos, result), w') \<and>
        getitem (memory c) (pos c + 1 + int (arg_count (instruction b))) = Inr i \<and>
        py_int result = Inr v \<longrightarrow>
          step c = (Some IndexError, c\<lparr>world := w'\<rparr>)) \<and>
    (\<forall>c'. step c = (Some IndexError, c') \<longrightarrow>
        loop c = Some (IndexError, c') \<and>
        (reaches (reset cpu (Some mem)) c \<longrightarrow> execute cpu mem = Some (Some IndexError, c')))"
proof (intro conjI allI impI)
  assume "pos c = i"
  with assms show "step c = (Some IndexError, c)"
    by (simp add: step_def getitem_out)
next
  fix w b k
  assume a: "getitem (memory c) (pos c) = Inr w \<and> CPU_getitem c w = Inr b \<and>
        k < length (modes b) \<and> modes b ! k = position \<and>
        getitem (memory c) (pos c + 1 + int k) = Inr i"
  then have off: "offset b = pos c + 1" using CPU_getitem_Inr_D(1) by blast
  have "args_of b (memory c) = Inl IndexError"
    unfolding args_of_def
  proof (rule collect_Inl_I [where i = k])
    show "k < length (enumerate_start (offset b) (modes b))" using a by simp
    show "get_arg (memory c) (enumerate_start (offset b) (modes b) ! k) = Inl IndexError"
      using a off assms by (simp add: get_arg_def getitem_out)
    show "\<And>x e'. x \<in> set (enumerate_start (offset b) (modes b)) \<Longrightarrow>
            get_arg (memory c) x = Inl e' \<Longrightarrow> e' = IndexError"
      by (rule get_arg_Inl)
  qed
  then have "BoundInstruction_call b c = (Inl IndexError, c)"
    by (simp add: BoundInstruction_call_def)
  with a show "step c = (Some IndexError, c)"
    by (simp add: step_bound)
next
  fix w b args newpos result w' v
  assume a: "getitem (memory c) (pos c) = Inr w \<and> CPU_getitem c w = Inr b \<and>
        output' (instruction b) \<and> args_of b (memory c) = Inr args \<and>
        call (instruction b) (pos c) args (world c) = (Inr (newpos, result), w') \<and>
        getitem (memory c) (pos c + 1 + int (arg_count (instruction b))) = Inr i \<and>
        py_int result = Inr v"
  then have off: "offset b = pos c + 1" using CPU_getitem_Inr_D(1) by blast
  from a off assms have "BoundInstruction_call b c = (Inl IndexError, c\<lparr>world := w'\<rparr>)"
    by (simp add: BoundInstruction_call_def setitem_out del: call.simps)
  with a show "step c = (Some IndexError, c\<lparr>world := w'\<rparr>)"
    by (simp add: step_bound)
next
  fix c'
  assume s: "step c = (Some IndexError, c')"
  then show "loop c = Some (IndexError, c')" by (rule loop_raise)
  assume "reaches (reset cpu (Some mem)) c"
  from execute_raise [OF this s] show "execute cpu mem = Some (Some IndexError, c')" by simp
qed

theorem index_out_of_range_witness:
  "step (cpu_on base_opcodes [2, 0, 0, 0] 4) = (Some IndexError, cpu_on base_opcodes [2, 0, 0, 0] 4) \<and>
   execute (cpu_on base_opcodes [] 0) [1, 0, 0, 0] =
     Some (Some IndexError, cpu_on base_opcodes [2, 0, 0, 0] 4) \<and>
   getitem [1, 7, 0, 0, 99] (0 + 1 + int 0) = Inr 7 \<and>
   step (cpu_on base_opcodes [1, 7, 0, 0, 99] 0) = (Some IndexError, cpu_on base_opcodes [1, 7, 0, 0, 99] 0) \<and>
   getitem [1, 0, 0, -6, 99] (0 + 1 + int 2) = Inr (-6) \<and>
   step (cpu_on base_opcodes [1, 0, 0, -6, 99] 0) = (Some IndexError, cpu_on base_opcodes [1, 0, 0, -6, 99] 0)"
proof -
  let ?c0 = "cpu_on base_opcodes [] 0"
  let ?f0 = "cpu_on base_opcodes [1, 0, 0, 0] 0"
  let ?f1 = "cpu_on base_opcodes [2, 0, 0, 0] 4"
  have "reset ?c0 (Some [1, 0, 0, 0]) = ?f0" by (simp add: reset_def cpu_on_def)
  moreover have "step ?f0 = (None, ?f1)"
    by (simp add: cpu_on_def engine_defs base_opcodes_def upt_rec)
  ultimately have r: "reaches (reset ?c0 (Some [1, 0, 0, 0])) ?f1"
    by (simp add: reaches.round [OF _ reaches.here])
  have o1: "4 < - int (length (memory ?f1)) \<or> int (length (memory ?f1)) \<le> 4"
    by (simp add: cpu_on_def)
  have p1: "pos ?f1 = 4" by (simp add: cpu_on_def)
  from index_out_of_range [OF o1, of ?c0 "[1, 0, 0, 0]"] p1 r
  have A: "step ?f1 = (Some IndexError, ?f1) \<and>
           execute ?c0 [1, 0, 0, 0] = Some (Some IndexError, ?f1)"
    by blast
  let ?g = "cpu_on base_opcodes [1, 7, 0, 0, 99] 0"
  let ?b = "\<lparr>instruction = Instruction operator_add 2 True, modes = [position, position], offset = 1\<rparr>"
  have o2: "7 < - int (length (memory ?g)) \<or> int (length (memory ?g)) \<le> 7"
    by (simp add: cpu_on_def)
  have g1: "getitem (memory ?g) (pos ?g) = Inr 1" by (simp add: cpu_on_def getitem_def)
  have g2: "CPU_getitem ?g 1 = Inr ?b"
    by (simp add: cpu_on_def CPU_getitem_def bind_def base_opcodes_def ParameterMode_of_def upt_rec)
  have g3: "0 < length (modes ?b) \<and> modes ?b ! 0 = position" by simp
  have g4: "getitem (memory ?g) (pos ?g + 1 + int 0) = Inr 7" by (simp add: cpu_on_def getitem_def)
  from index_out_of_range [OF o2] g1 g2 g3 g4
  have B: "step ?g = (Some IndexError, ?g)" by blast
  from g4 have B': "getitem [1, 7, 0, 0, 99] (0 + 1 + int 0) = Inr 7" unfolding cpu_on_sel .
  let ?h = "cpu_on base_opcodes [1, 0, 0, -6, 99] 0"
  have o3: "-6 < - int (length (memory ?h)) \<or> int (length (memory ?h)) \<le> -6"
    by (simp add: cpu_on_def)
  have h1: "getitem (memory ?h) (pos ?h) = Inr 1" by (simp add: cpu_on_def getitem_def)
  have h2: "CPU_getitem ?h 1 = Inr ?b"
    by (simp add: cpu_on_def CPU_getitem_def bind_def base_opcodes_def ParameterMode_of_def upt_rec)
  have h3: "output' (instruction ?b)" by simp
  have h4: "args_of ?b (memory ?h) = Inr [1, 1]"
    by (simp add: cpu_on_def args_of_def get_arg_def getitem_def)
  have h5: "call (instruction ?b) (pos ?h) [1, 1] (world ?h) = (Inr (4, PyInt 2), console0)"
    by (simp add: cpu_on_def Instruction_call_def)
  have h6: "getitem (memory ?h) (pos ?h + 1 + int (arg_count (instruction ?b))) = Inr (-6)"
    by (simp add: cpu_on_def getitem_def)
  have h7: "py_int (PyInt 2) = Inr 2" by simp
  from index_out_of_range [OF o3] h1 h2 h3 h4 h5 h6 h7
  have "step ?h = (Some IndexError, ?h\<lparr>world := console0\<rparr>)" by blast
  then have C: "step ?h = (Some IndexError, ?h)" by (simp add: cpu_on_def)
  from h6 have C': "getitem [1, 0, 0, -6, 99] (0 + 1 + int 2) = Inr (-6)"
    by (simp add: cpu_on_def)
  from A B B' C C' show ?thesis by blast
qed

section \<open>Runs do not see each other\<close>

text \<open>
  C9.  Day 2's \<open>execute\<close> starts from a new copy of the caller's list and from position
  0.  A run changes no list that existed before it, so the caller's image is intact;
  and a second run on the same image, with other overrides at addresses 1 and 2, on
  the CPU object and the store the first run left behind, has the outcome of the same
  run on the store before the first run with any CPU object at all.  For the CPU with
  parameter modes, \<open>execute\<close> does not depend on the memory and position the CPU had.
\<close>

theorem runs_isolated:
  assumes "r < length h" and "d2_execute h c r noun1 verb1 = (res1, h1, c1)"
  shows "d2_reset h c (Some r) = (h @ [h ! r], c\<lparr>d2_memory := length h, d2_pos := 0\<rparr>) \<and>
         (\<forall>a<length h. h1 ! a = h ! a) \<and> d2_memory c1 = length h \<and>
         d2_outcome (d2_execute h1 c1 r noun2 verb2) = d2_outcome (d2_execute h c0 r noun2 verb2) \<and>
         execute (cpu\<lparr>memory := m, pos := p\<rparr>) mem = execute cpu mem"
proof -
  note fr = d2_execute_frame [OF assms(2)]
  from fr assms(1) have "h1 ! r = h ! r" by simp
  from d2_execute_rel [OF this] have
    "d2_outcome (d2_execute h1 c1 r noun2 verb2) = d2_outcome (d2_execute h c0 r noun2 verb2)" .
  moreover have "execute (cpu\<lparr>memory := m, pos := p\<rparr>) mem = execute cpu mem"
    by (simp add: execute_def reset_def)
  moreover have "d2_reset h c (Some r) = (h @ [h ! r], c\<lparr>d2_memory := length h, d2_pos := 0\<rparr>)"
    by (simp add: d2_reset_def)
  ultimately show ?thesis using fr by blast
qed

theorem runs_isolated_witness:
  "d2_execute [[1, 0, 0, 0, 99]] \<lparr>d2_memory = 0, d2_pos = 0\<rparr> 0 (Some 4) (Some 4) =
     (Inr 198, [[1, 0, 0, 0, 99], [198, 4, 4, 0, 99]], \<lparr>d2_memory = 1, d2_pos = 4\<rparr>) \<and>
   [[1, 0, 0, 0, 99], [198, 4, 4, 0, 99]] ! 0 = [1, 0, 0, 0, 99 :: int] \<and>
   d2_outcome (d2_execute [[1, 0, 0, 0, 99], [198, 4, 4, 0, 99]] \<lparr>d2_memory = 1, d2_pos = 4\<rparr>
                 0 (Some 0) (Some 0)) =
     d2_outcome (d2_execute [[1, 0, 0, 0, 99]] \<lparr>d2_memory = 0, d2_pos = 0\<rparr> 0 (Some 0) (Some 0)) \<and>
   d2_outcome (d2_execute [[1, 0, 0, 0, 99]] \<lparr>d2_memory = 0, d2_pos = 0\<rparr> 0 (Some 0) (Some 0)) =
     (Inr 2, [2, 0, 0, 0, 99], 4)"
proof -
  let ?h = "[[1, 0, 0, 0, 99]] :: heap"
  let ?c = "\<lparr>d2_memory = 0, d2_pos = 0\<rparr>"
  let ?start = "\<lparr>d2_memory = 1, d2_pos = 0\<rparr>"
  let ?stop = "\<lparr>d2_memory = 1, d2_pos = 4\<rparr>"
  have a1: "d2_step [[1, 0, 0, 0, 99], [1, 4, 4, 0, 99]] 1 ?start =
      (None, [[1, 0, 0, 0, 99], [198, 4, 4, 0, 99]], ?stop)"
    by (simp add: d2_defs)
  have a2: "d2_step [[1, 0, 0, 0, 99], [198, 4, 4, 0, 99]] 1 ?stop =
      (Some Halt, [[1, 0, 0, 0, 99], [198, 4, 4, 0, 99]], ?stop)"
    by (simp add: d2_defs)
  have run1: "d2_execute ?h ?c 0 (Some 4) (Some 4) =
      (Inr 198, [[1, 0, 0, 0, 99], [198, 4, 4, 0, 99]], ?stop)"
    using d2_loop_next [OF a1] d2_loop_raise [OF a2]
    by (simp add: d2_execute_eq setitem_def getitem_def)
  have b1: "d2_step [[1, 0, 0, 0, 99], [1, 0, 0, 0, 99]] 1 ?start =
      (None, [[1, 0, 0, 0, 99], [2, 0, 0, 0, 99]], ?stop)"
    by (simp add: d2_defs)
  have b2: "d2_step [[1, 0, 0, 0, 99], [2, 0, 0, 0, 99]] 1 ?stop =
      (Some Halt, [[1, 0, 0, 0, 99], [2, 0, 0, 0, 99]], ?stop)"
    by (simp add: d2_defs)
  have run2: "d2_execute ?h ?c 0 (Some 0) (Some 0) =
      (Inr 2, [[1, 0, 0, 0, 99], [2, 0, 0, 0, 99]], ?stop)"
    using d2_loop_next [OF b1] d2_loop_raise [OF b2]
    by (simp add: d2_execute_eq setitem_def getitem_def)
  have r: "0 < length ?h" by simp
  from runs_isolated [OF r run1, of "Some 0" "Some 0" ?c] have
    "d2_outcome (d2_execute [[1, 0, 0, 0, 99], [198, 4, 4, 0, 99]] ?stop 0 (Some 0) (Some 0)) =
     d2_outcome (d2_execute ?h ?c 0 (Some 0) (Some 0))"
    by blast
  moreover have "d2_outcome (d2_execute ?h ?c 0 (Some 0) (Some 0)) = (Inr 2, [2, 0, 0, 0, 99], 4)"
    by (simp add: run2 d2_outcome_def)
  ultimately show ?thesis using run1 by simp
qed

end
